theory Spec2Isabelle
  imports Main "HOL-Library.Multiset"
begin

section \<open>Data model of \<^verbatim>\<open>app.py\<close>\<close>

text \<open>
  A Python \<^verbatim>\<open>datetime\<close> is its wall-clock reading (seconds) together with an optional
  \<^verbatim>\<open>tzinfo\<close> (the UTC offset in seconds); \<^verbatim>\<open>tzinfo is None\<close> is the naive case.
  \<^verbatim>\<open>IST = timezone(timedelta(hours=5, minutes=30))\<close>.
\<close>

record py_datetime =
  wall :: int
  tzinfo :: "int option"

definition IST :: int where
  "IST = 5 * 3600 + 30 * 60"

text \<open>A timezone-aware datetime: the only kind that is compared with \<^verbatim>\<open>datetime.now(IST)\<close>.\<close>

record aware_datetime =
  aware_wall :: int
  utcoffset :: int

definition instant :: "aware_datetime \<Rightarrow> int" where
  "instant d = aware_wall d - utcoffset d"

text \<open>
  Lines 74-77: \<^verbatim>\<open>if run_time.tzinfo is None: run_time = run_time.replace(tzinfo=IST)\<close>.
  The result is always aware, which the result type records.
\<close>

definition normalize_time :: "py_datetime \<Rightarrow> aware_datetime" where
  "normalize_time run_time =
     (case tzinfo run_time of
        None \<Rightarrow> \<lparr>aware_wall = wall run_time, utcoffset = IST\<rparr>
      | Some off \<Rightarrow> \<lparr>aware_wall = wall run_time, utcoffset = off\<rparr>)"

text \<open>The \<^verbatim>\<open>Post\<close> model (lines 30-37); \<^verbatim>\<open>id\<close> is the integer primary key.\<close>

record post =
  post_id :: int
  title :: string
  content :: string
  platform :: string
  scheduled_time :: py_datetime
  status :: string
  image_filename :: "string option"

text \<open>An entry of the scheduler's job store: its id, its fire time and the argument of
  \<^verbatim>\<open>publish_post\<close>.\<close>

record job =
  jid :: string
  run_date :: aware_datetime
  args :: int

text \<open>
  Everything the program does to its collaborators is recorded, in order, in a trace:
  log records (level and the bracketed tag of the message), database commits and row
  deletions, socket emissions, calls of the scheduler and file operations.
\<close>

datatype level = INFO | WARNING | ERROR

datatype effect =
    Log level string
  | Commit
  | DbDelete int
  | Emit int string
  | AddJob string aware_datetime int
  | RemoveJob string
  | SaveFile string
  | OsRemove string

record state =
  posts :: "post list"
  jobs :: "job list"
  files :: "string list"
  trace :: "effect list"

definition init_state :: state where
  "init_state = \<lparr>posts = [], jobs = [], files = [], trace = []\<rparr>"

text \<open>
  What the program cannot decide itself: the clock read while a post is reconciled, whether
  the job store rejects a registration (any exception of \<^verbatim>\<open>scheduler.add_job\<close>) and whether
  \<^verbatim>\<open>os.remove\<close> fails on a file.
\<close>

record env =
  now :: "int \<Rightarrow> int"
  add_job_fails :: "string \<Rightarrow> bool"
  os_remove_fails :: "string \<Rightarrow> bool"

section \<open>The post store\<close>

text \<open>\<^verbatim>\<open>Post.query.get(post_id)\<close>: the row with that primary key, or \<^verbatim>\<open>None\<close>.\<close>

definition get_post :: "int \<Rightarrow> post list \<Rightarrow> post option" where
  "get_post i ps = find (\<lambda>p. post_id p = i) ps"

text \<open>\<^verbatim>\<open>post.status = v; db.session.commit()\<close>: the update of the row keyed by the id.\<close>

definition set_status :: "int \<Rightarrow> string \<Rightarrow> post list \<Rightarrow> post list" where
  "set_status i v ps = map (\<lambda>p. if post_id p = i then p\<lparr>status := v\<rparr> else p) ps"

section \<open>The publish handler\<close>

text \<open>Lines 49-66.\<close>

definition publish_post :: "int \<Rightarrow> state \<Rightarrow> state" where
  "publish_post i s =
     (case get_post i (posts s) of
        None \<Rightarrow> s\<lparr>trace := trace s @ [Log WARNING ''publish_post'']\<rparr>
      | Some p \<Rightarrow>
          if status p \<noteq> ''scheduled''
          then s\<lparr>trace := trace s @ [Log INFO ''publish_post'']\<rparr>
          else s\<lparr>posts := set_status (post_id p) ''posted'' (posts s),
                 trace := trace s @ [Commit, Emit (post_id p) ''posted'', Log INFO ''publish_post'']\<rparr>)"

section \<open>The scheduler's job store\<close>

text \<open>
  Line 46: \<^verbatim>\<open>f"post_{post_id}"\<close>. \<^verbatim>\<open>str_int\<close> is Python's decimal rendering of an
  integer.
\<close>

definition digit_char :: "nat \<Rightarrow> char" where
  "digit_char d = ''0123456789'' ! d"

fun str_nat :: "nat \<Rightarrow> string" where
  "str_nat n = (if n < 10 then [digit_char n] else str_nat (n div 10) @ [digit_char (n mod 10)])"

declare str_nat.simps [simp del]

definition str_int :: "int \<Rightarrow> string" where
  "str_int i = (if i < 0 then CHR ''-'' # str_nat (nat (- i)) else str_nat (nat i))"

definition job_id :: "int \<Rightarrow> string" where
  "job_id i = ''post_'' @ str_int i"

datatype sched_error = JobLookupError | SchedulerError

definition find_job :: "string \<Rightarrow> job list \<Rightarrow> job option" where
  "find_job k js = find (\<lambda>j. jid j = k) js"

text \<open>
  Modelled from the spec: the scheduler (APScheduler) is a collaborator whose code is not in
  the repository. Section 4.1, \<^verbatim>\<open>register\<close>: "If a task with taskId already exists, it is
  atomically replaced"; this is \<^verbatim>\<open>add_job(..., id=k, replace_existing=True)\<close>, which
  replaces the entry that has the id or adds one (\<open>put_job\<close>) unless the job store rejects
  the registration with an exception. \<^verbatim>\<open>remove_job(k)\<close> removes the entry and raises when
  no entry has the id: the \<^verbatim>\<open>except\<close> clause of lines 191-192 logs exactly this case, and
  with it \<^verbatim>\<open>delete\<close> becomes the tolerant \<^verbatim>\<open>cancel\<close> of section 4.1.
\<close>

definition put_job :: "job \<Rightarrow> job list \<Rightarrow> job list" where
  "put_job j js =
     (if find_job (jid j) js = None then js @ [j]
      else map (\<lambda>x. if jid x = jid j then j else x) js)"

definition add_job :: "env \<Rightarrow> job \<Rightarrow> job list \<Rightarrow> sched_error + job list" where
  "add_job e j js = (if add_job_fails e (jid j) then Inl SchedulerError else Inr (put_job j js))"

definition remove_job :: "string \<Rightarrow> job list \<Rightarrow> sched_error + job list" where
  "remove_job k js =
     (if find_job k js = None then Inl JobLookupError
      else Inr (filter (\<lambda>j. jid j \<noteq> k) js))"

text \<open>
  The block \<^verbatim>\<open>try: scheduler.add_job(...); logging.info(...) except Exception: logging.error(...)\<close>
  of lines 85-96, 132-139 and 170-177, with the tag of its log messages.
\<close>

definition try_add_job :: "env \<Rightarrow> string \<Rightarrow> job \<Rightarrow> state \<Rightarrow> state" where
  "try_add_job e tag j s =
     (case add_job e j (jobs s) of
        Inr js \<Rightarrow> s\<lparr>jobs := js,
                     trace := trace s @ [AddJob (jid j) (run_date j) (args j), Log INFO tag]\<rparr>
      | Inl err \<Rightarrow> s\<lparr>trace := trace s @ [AddJob (jid j) (run_date j) (args j), Log ERROR tag]\<rparr>)"

text \<open>The job the three call sites build for a post: id \<^verbatim>\<open>_job_id(post.id)\<close>, the run date
  (a naive one is read in the scheduler's timezone, IST, line 41) and \<^verbatim>\<open>args=[post.id]\<close>.\<close>

definition job_for :: "int \<Rightarrow> py_datetime \<Rightarrow> job" where
  "job_for i t = \<lparr>jid = job_id i, run_date = normalize_time t, args = i\<rparr>"

section \<open>Startup reconciliation\<close>

text \<open>Lines 73-96: the body of the loop, for one post.\<close>

definition startup_post :: "env \<Rightarrow> state \<Rightarrow> post \<Rightarrow> state" where
  "startup_post e s p =
     (let run_time = normalize_time (scheduled_time p) in
      if instant run_time \<le> now e (post_id p)
      then publish_post (post_id p) (s\<lparr>trace := trace s @ [Log INFO ''SchedulerSetup'']\<rparr>)
      else try_add_job e ''SchedulerSetup''
             \<lparr>jid = job_id (post_id p), run_date = run_time, args = post_id p\<rparr> s)"

text \<open>Lines 69-96: the query for the posts with status \<^verbatim>\<open>"scheduled"\<close>, then the loop.\<close>

definition startup :: "env \<Rightarrow> state \<Rightarrow> state" where
  "startup e s =
     (let scheduled_posts = filter (\<lambda>p. status p = ''scheduled'') (posts s) in
      foldl (startup_post e) (s\<lparr>trace := trace s @ [Log INFO ''SchedulerSetup'']\<rparr>)
        scheduled_posts)"

section \<open>Routes\<close>

text \<open>
  A request is a GET or a POST with its form. The form's \<^verbatim>\<open>scheduled_time\<close> is the
  wall-clock value that \<^verbatim>\<open>strptime\<close> parsed; \<open>f_image\<close> is the secured name of the
  uploaded file, present when a file with a non-empty name came with the request.
  Failures of form parsing, of saving a file and of the commit are outside the model.
\<close>

record form =
  f_title :: string
  f_content :: string
  f_platform :: string
  f_scheduled_time :: int
  f_image :: "string option"

datatype request = GET | POST form

datatype http_error = NotFound | InternalServerError

datatype response = Redirect_index | Render_index "post list" | Render_schedule | Render_edit post

text \<open>The store assigns the primary key of a new row: above every id in the table.\<close>

definition fresh_id :: "post list \<Rightarrow> int" where
  "fresh_id ps = foldr max (map post_id ps) 0 + 1"

definition save_file :: "string \<Rightarrow> string list \<Rightarrow> string list" where
  "save_file name fs = (if name \<in> set fs then fs else fs @ [name])"

text \<open>\<^verbatim>\<open>if post.image_filename:\<close> is false for \<^verbatim>\<open>None\<close> and for the empty string.\<close>

definition truthy :: "string option \<Rightarrow> bool" where
  "truthy x = (case x of None \<Rightarrow> False | Some n \<Rightarrow> n \<noteq> [])"

definition update_post :: "post \<Rightarrow> post list \<Rightarrow> post list" where
  "update_post q ps = map (\<lambda>p. if post_id p = post_id q then q else p) ps"

text \<open>Lines 99-102: \<^verbatim>\<open>order_by(Post.scheduled_time.desc())\<close>. The column holds the
  wall-clock value, which is what the database compares.\<close>

definition index :: "state \<Rightarrow> post list" where
  "index s = sort_key (\<lambda>p. - wall (scheduled_time p)) (posts s)"

text \<open>Lines 104-142.\<close>

definition schedule :: "env \<Rightarrow> request \<Rightarrow> state \<Rightarrow> (http_error + response) \<times> state" where
  "schedule e req s =
     (case req of
        GET \<Rightarrow> (Inr Render_schedule, s)
      | POST f \<Rightarrow>
          let scheduled_time = \<lparr>wall = f_scheduled_time f, tzinfo = Some IST\<rparr>;
              s1 = (case f_image f of
                      None \<Rightarrow> s
                    | Some name \<Rightarrow> s\<lparr>files := save_file name (files s),
                                      trace := trace s @ [SaveFile name]\<rparr>);
              new_post = \<lparr>post_id = fresh_id (posts s1), title = f_title f,
                          content = f_content f, platform = f_platform f,
                          scheduled_time = scheduled_time, status = ''scheduled'',
                          image_filename = f_image f\<rparr>;
              s2 = s1\<lparr>posts := posts s1 @ [new_post], trace := trace s1 @ [Commit]\<rparr>
          in (Inr Redirect_index,
              try_add_job e ''Schedule'' (job_for (post_id new_post) scheduled_time) s2))"

text \<open>Lines 167-179 of \<^verbatim>\<open>edit\<close>: commit the edited row, reschedule, redirect.\<close>

definition edit_commit :: "env \<Rightarrow> post \<Rightarrow> state \<Rightarrow> (http_error + response) \<times> state" where
  "edit_commit e p s =
     (let s1 = s\<lparr>posts := update_post p (posts s), trace := trace s @ [Commit]\<rparr>
      in (Inr Redirect_index,
          try_add_job e ''Edit'' (job_for (post_id p) (scheduled_time p)) s1))"

text \<open>Lines 144-180. The \<^verbatim>\<open>os.remove\<close> of the old image is not guarded here: its failure
  ends the request with an error before anything is committed.\<close>

definition edit :: "env \<Rightarrow> int \<Rightarrow> request \<Rightarrow> state \<Rightarrow> (http_error + response) \<times> state" where
  "edit e i req s =
     (case get_post i (posts s) of
        None \<Rightarrow> (Inl NotFound, s)
      | Some p0 \<Rightarrow>
          (case req of
             GET \<Rightarrow> (Inr (Render_edit p0), s)
           | POST f \<Rightarrow>
               let p = p0\<lparr>title := f_title f, content := f_content f, platform := f_platform f,
                          scheduled_time := \<lparr>wall = f_scheduled_time f, tzinfo = Some IST\<rparr>\<rparr>
               in (case f_image f of
                     None \<Rightarrow> edit_commit e p s
                   | Some new_filename \<Rightarrow>
                       let old = (case image_filename p of None \<Rightarrow> [] | Some n \<Rightarrow> n);
                           old_exists = (truthy (image_filename p) \<and> old \<in> set (files s))
                       in if old_exists \<and> os_remove_fails e old
                          then (Inl InternalServerError, s\<lparr>trace := trace s @ [OsRemove old]\<rparr>)
                          else
                            let s1 = (if old_exists
                                      then s\<lparr>files := removeAll old (files s),
                                             trace := trace s @ [OsRemove old]\<rparr>
                                      else s);
                                s2 = s1\<lparr>files := save_file new_filename (files s1),
                                        trace := trace s1 @ [SaveFile new_filename]\<rparr>
                            in edit_commit e (p\<lparr>image_filename := Some new_filename\<rparr>) s2)))"

text \<open>Lines 186-192 of \<^verbatim>\<open>delete\<close>: remove the scheduled job if it exists.\<close>

definition delete_job :: "post \<Rightarrow> state \<Rightarrow> state" where
  "delete_job p s =
     (let k = job_id (post_id p) in
      case remove_job k (jobs s) of
        Inr js \<Rightarrow> s\<lparr>jobs := js, trace := trace s @ [RemoveJob k, Log INFO ''Delete'']\<rparr>
      | Inl err \<Rightarrow> s\<lparr>trace := trace s @ [RemoveJob k, Log WARNING ''Delete'']\<rparr>)"

text \<open>Lines 194-201: remove the uploaded image file; a failure is logged.\<close>

definition delete_image :: "env \<Rightarrow> post \<Rightarrow> state \<Rightarrow> state" where
  "delete_image e p s =
     (case image_filename p of
        None \<Rightarrow> s
      | Some n \<Rightarrow>
          if n \<noteq> [] \<and> n \<in> set (files s)
          then (if os_remove_fails e n
                then s\<lparr>trace := trace s @ [OsRemove n, Log ERROR ''Delete'']\<rparr>
                else s\<lparr>files := removeAll n (files s), trace := trace s @ [OsRemove n]\<rparr>)
          else s)"

text \<open>Lines 203-205: delete the row and commit.\<close>

definition delete_row :: "post \<Rightarrow> state \<Rightarrow> state" where
  "delete_row p s =
     s\<lparr>posts := filter (\<lambda>q. post_id q \<noteq> post_id p) (posts s),
       trace := trace s @ [DbDelete (post_id p), Commit]\<rparr>"

text \<open>Lines 182-207.\<close>

definition delete :: "env \<Rightarrow> int \<Rightarrow> state \<Rightarrow> (http_error + response) \<times> state" where
  "delete e i s =
     (case get_post i (posts s) of
        None \<Rightarrow> (Inl NotFound, s)
      | Some p \<Rightarrow> (Inr Redirect_index, delete_row p (delete_image e p (delete_job p s))))"

section \<open>The scheduler's firing loop and the program's operations\<close>

text \<open>
  Modelled from the spec: the background loop of the scheduler (section 4.1, \<^verbatim>\<open>run()\<close>) is
  not code of the repository. When the clock \<open>t\<close> has reached the fire time of the entry
  with id \<open>k\<close>, the loop discards the entry and invokes its callback, \<^verbatim>\<open>publish_post\<close>, with
  the entry's argument.
\<close>

definition fire :: "string \<Rightarrow> int \<Rightarrow> state \<Rightarrow> state" where
  "fire k t s =
     (case find_job k (jobs s) of
        None \<Rightarrow> s
      | Some j \<Rightarrow>
          if instant (run_date j) \<le> t
          then publish_post (args j) (s\<lparr>jobs := filter (\<lambda>x. jid x \<noteq> k) (jobs s)\<rparr>)
          else s)"

datatype op =
    Create env form
  | Edit env int form
  | Delete env int
  | Startup env
  | Fire string int

fun step :: "state \<Rightarrow> op \<Rightarrow> state" where
  "step s (Create e f) = snd (schedule e (POST f) s)"
| "step s (Edit e i f) = snd (edit e i (POST f) s)"
| "step s (Delete e i) = snd (delete e i s)"
| "step s (Startup e) = startup e s"
| "step s (Fire k t) = fire k t s"

definition run :: "op list \<Rightarrow> state \<Rightarrow> state" where
  "run ops s = foldl step s ops"

section \<open>The draft \<^verbatim>\<open>tempCodeRunnerFile.py\<close>\<close>

text \<open>
  The repository also holds an earlier draft of the application. Four of its routes are
  modelled: \<^verbatim>\<open>index\<close> (lines 87-90, ascending order), \<^verbatim>\<open>schedule\<close> (lines 92-135),
  \<^verbatim>\<open>edit\<close> (lines 137-155) and \<^verbatim>\<open>delete\<close> (lines 157-166). The draft's status of a new
  post is \<^verbatim>\<open>"pending"\<close>; its job id (lines 60 and 114) is
  \<^verbatim>\<open>f"post_{id}_{int(run_time.timestamp())}"\<close>, the timestamp being the instant of the aware
  time. Its \<^verbatim>\<open>edit\<close> and \<^verbatim>\<open>delete\<close> make no call of the scheduler, and \<^verbatim>\<open>os.remove\<close> is
  unguarded in \<^verbatim>\<open>delete\<close>. In \<^verbatim>\<open>schedule\<close> only \<^verbatim>\<open>ConflictingIdError\<close> is caught, which
  \<^verbatim>\<open>replace_existing=True\<close> never raises: a rejection by the job store ends the request with
  an error, after the commit.
\<close>

definition job_id_tmp :: "int \<Rightarrow> aware_datetime \<Rightarrow> string" where
  "job_id_tmp i t = ''post_'' @ str_int i @ ''_'' @ str_int (instant t)"

definition schedule_tmp :: "env \<Rightarrow> request \<Rightarrow> state \<Rightarrow> (http_error + response) \<times> state" where
  "schedule_tmp e req s =
     (case req of
        GET \<Rightarrow> (Inr Render_schedule, s)
      | POST f \<Rightarrow>
          let scheduled_time = \<lparr>wall = f_scheduled_time f, tzinfo = Some IST\<rparr>;
              s1 = (case f_image f of
                      None \<Rightarrow> s
                    | Some name \<Rightarrow> s\<lparr>files := save_file name (files s),
                                      trace := trace s @ [SaveFile name]\<rparr>);
              new_post = \<lparr>post_id = fresh_id (posts s1), title = f_title f,
                          content = f_content f, platform = f_platform f,
                          scheduled_time = scheduled_time, status = ''pending'',
                          image_filename = f_image f\<rparr>;
              s2 = s1\<lparr>posts := posts s1 @ [new_post], trace := trace s1 @ [Commit]\<rparr>;
              run_time = normalize_time scheduled_time;
              j = \<lparr>jid = job_id_tmp (post_id new_post) run_time, run_date = run_time,
                   args = post_id new_post\<rparr>
          in (case add_job e j (jobs s2) of
                Inr js \<Rightarrow>
                  (Inr Redirect_index,
                   s2\<lparr>jobs := js, trace := trace s2 @ [AddJob (jid j) (run_date j) (args j)]\<rparr>)
              | Inl err \<Rightarrow>
                  (Inl InternalServerError,
                   s2\<lparr>trace := trace s2 @ [AddJob (jid j) (run_date j) (args j)]\<rparr>)))"

definition index_tmp :: "state \<Rightarrow> post list" where
  "index_tmp s = sort_key (\<lambda>p. wall (scheduled_time p)) (posts s)"

definition edit_tmp :: "int \<Rightarrow> request \<Rightarrow> state \<Rightarrow> (http_error + response) \<times> state" where
  "edit_tmp i req s =
     (case get_post i (posts s) of
        None \<Rightarrow> (Inl NotFound, s)
      | Some p0 \<Rightarrow>
          (case req of
             GET \<Rightarrow> (Inr (Render_edit p0), s)
           | POST f \<Rightarrow>
               let p = p0\<lparr>title := f_title f, content := f_content f, platform := f_platform f,
                          scheduled_time := \<lparr>wall = f_scheduled_time f, tzinfo = Some IST\<rparr>\<rparr>;
                   (p1, s1) = (case f_image f of
                                 None \<Rightarrow> (p, s)
                               | Some n \<Rightarrow> (p\<lparr>image_filename := Some n\<rparr>,
                                             s\<lparr>files := save_file n (files s),
                                               trace := trace s @ [SaveFile n]\<rparr>))
               in (Inr Redirect_index,
                   s1\<lparr>posts := update_post p1 (posts s1), trace := trace s1 @ [Commit]\<rparr>)))"

definition delete_tmp :: "env \<Rightarrow> int \<Rightarrow> state \<Rightarrow> (http_error + response) \<times> state" where
  "delete_tmp e i s =
     (case get_post i (posts s) of
        None \<Rightarrow> (Inl NotFound, s)
      | Some p \<Rightarrow>
          (case image_filename p of
             None \<Rightarrow> (Inr Redirect_index, delete_row p s)
           | Some n \<Rightarrow>
               if n \<noteq> [] \<and> n \<in> set (files s)
               then (if os_remove_fails e n
                     then (Inl InternalServerError, s\<lparr>trace := trace s @ [OsRemove n]\<rparr>)
                     else (Inr Redirect_index,
                           delete_row p (s\<lparr>files := removeAll n (files s),
                                           trace := trace s @ [OsRemove n]\<rparr>)))
               else (Inr Redirect_index, delete_row p s)))"

section \<open>Observations\<close>

text \<open>The notifications sent through the socket, in order.\<close>

definition emitted :: "state \<Rightarrow> (int \<times> string) list" where
  "emitted s = concat (map (\<lambda>x. case x of Emit i v \<Rightarrow> [(i, v)] | _ \<Rightarrow> []) (trace s))"

text \<open>The status of the post with a given id, and the job entries under its task id.\<close>

definition status_of :: "int \<Rightarrow> state \<Rightarrow> string option" where
  "status_of i s = map_option status (get_post i (posts s))"

definition jobs_of :: "int \<Rightarrow> state \<Rightarrow> job list" where
  "jobs_of i s = filter (\<lambda>j. jid j = job_id i) (jobs s)"

text \<open>
  Names for what \<^verbatim>\<open>schedule\<close> and \<^verbatim>\<open>edit\<close> write: the row a create inserts, the row an
  edit leaves, the aware time built from the form (\<^verbatim>\<open>.replace(tzinfo=IST)\<close>), the name of the
  image an edit replaces, and the file effects of an edit.
\<close>

definition new_post :: "form \<Rightarrow> state \<Rightarrow> post" where
  "new_post f s = \<lparr>post_id = fresh_id (posts s), title = f_title f, content = f_content f,
     platform = f_platform f,
     scheduled_time = \<lparr>wall = f_scheduled_time f, tzinfo = Some IST\<rparr>,
     status = ''scheduled'', image_filename = f_image f\<rparr>"

definition edited :: "form \<Rightarrow> post \<Rightarrow> post" where
  "edited f p = p\<lparr>title := f_title f, content := f_content f, platform := f_platform f,
     scheduled_time := \<lparr>wall = f_scheduled_time f, tzinfo = Some IST\<rparr>,
     image_filename := (case f_image f of None \<Rightarrow> image_filename p | Some n \<Rightarrow> Some n)\<rparr>"

definition form_time :: "form \<Rightarrow> aware_datetime" where
  "form_time f = \<lparr>aware_wall = f_scheduled_time f, utcoffset = IST\<rparr>"

definition old_image :: "post \<Rightarrow> string" where
  "old_image p = (case image_filename p of None \<Rightarrow> [] | Some n \<Rightarrow> n)"

definition edit_image_trace :: "form \<Rightarrow> post \<Rightarrow> state \<Rightarrow> effect list" where
  "edit_image_trace f p s =
     (case f_image f of
        None \<Rightarrow> []
      | Some n \<Rightarrow>
          (if truthy (image_filename p) \<and> old_image p \<in> set (files s)
           then [OsRemove (old_image p)] else []) @ [SaveFile n])"

text \<open>A sequence of edits of one post, each with its environment and form, and those among
  them whose registration the job store accepts.\<close>

definition edits :: "int \<Rightarrow> (env \<times> form) list \<Rightarrow> op list" where
  "edits i efs = map (\<lambda>(e, f). Edit e i f) efs"

definition accepted :: "int \<Rightarrow> (env \<times> form) list \<Rightarrow> (env \<times> form) list" where
  "accepted i efs = filter (\<lambda>(e, f). \<not> add_job_fails e (job_id i)) efs"

text \<open>The names \<^verbatim>\<open>os.remove\<close> can be asked to remove in a sequence of edits of a post: the
  post's image and the images of the forms.\<close>

definition image_names :: "post \<Rightarrow> (env \<times> form) list \<Rightarrow> string list" where
  "image_names p efs =
     old_image p # concat (map (\<lambda>(e, f). case f_image f of None \<Rightarrow> [] | Some n \<Rightarrow> [n]) efs)"

text \<open>The operations that delete the post with a given id.\<close>

fun deletes :: "int \<Rightarrow> op \<Rightarrow> bool" where
  "deletes i (Delete e j) = (j = i)"
| "deletes i x = False"

section \<open>The specification's account of the reconciliation\<close>

text \<open>
  Section 4.2 of the specification, post by post, to be compared with \<open>startup\<close>: a
  scheduled post is due when its normalised time is not after the clock; a due post is
  published, any other gets a registration under its task id, which is logged as an error
  when rejected. \<open>reconcile_trace\<close> lists the effects for one post, \<open>registered\<close> says
  that a post ends with a fresh registration, \<open>post_job\<close> is that registration and
  \<open>mark_due\<close> is the publication of the due posts of a list.
\<close>

definition due :: "env \<Rightarrow> post \<Rightarrow> bool" where
  "due e p = (instant (normalize_time (scheduled_time p)) \<le> now e (post_id p))"

definition reconcile_trace :: "env \<Rightarrow> post \<Rightarrow> effect list" where
  "reconcile_trace e p =
     (if due e p
      then [Log INFO ''SchedulerSetup'', Commit, Emit (post_id p) ''posted'',
            Log INFO ''publish_post'']
      else [AddJob (job_id (post_id p)) (normalize_time (scheduled_time p)) (post_id p),
            Log (if add_job_fails e (job_id (post_id p)) then ERROR else INFO)
              ''SchedulerSetup''])"

definition registered :: "env \<Rightarrow> post \<Rightarrow> bool" where
  "registered e p =
     (status p = ''scheduled'' \<and> \<not> due e p \<and> \<not> add_job_fails e (job_id (post_id p)))"

definition post_job :: "post \<Rightarrow> job" where
  "post_job p = \<lparr>jid = job_id (post_id p), run_date = normalize_time (scheduled_time p),
                  args = post_id p\<rparr>"

definition mark_due :: "env \<Rightarrow> post list \<Rightarrow> post \<Rightarrow> post" where
  "mark_due e qs r =
     (if post_id r \<in> post_id ` set (filter (due e) qs) then r\<lparr>status := ''posted''\<rparr> else r)"

section \<open>Invariants\<close>

text \<open>
  The invariant of section 3 of the specification: a post with status "posted" has no
  entry under its task id, a post with status "scheduled" has at most one.
\<close>

definition spec_invariant :: "state \<Rightarrow> bool" where
  "spec_invariant s =
     list_all (\<lambda>p. if status p = ''posted'' then jobs_of (post_id p) s = []
                    else if status p = ''scheduled'' then length (jobs_of (post_id p) s) \<le> 1
                    else True) (posts s)"

text \<open>
  Well-formed stores: the post id is a key of the post table, the job id is a key of the
  job store, and every entry's id is the task id of the post it publishes.
\<close>

definition wf_state :: "state \<Rightarrow> bool" where
  "wf_state s = (distinct (map post_id (posts s)) \<and> distinct (map jid (jobs s)) \<and>
           list_all (\<lambda>j. jid j = job_id (args j)) (jobs s))"

definition jobs_ok :: "job list \<Rightarrow> bool" where
  "jobs_ok js = (distinct (map jid js) \<and> (\<forall>j \<in> set js. jid j = job_id (args j)))"

text \<open>The two halves of the invariant: every post has at most one entry; no posted post has
  one.\<close>

definition at_most_one :: "state \<Rightarrow> bool" where
  "at_most_one s = list_all (\<lambda>p. length (jobs_of (post_id p) s) \<le> 1) (posts s)"

definition posted_no_job :: "state \<Rightarrow> bool" where
  "posted_no_job s =
     list_all (\<lambda>p. status p \<noteq> ''posted'' \<or> jobs_of (post_id p) s = []) (posts s)"

text \<open>
  The operations that keep the second half: every create, delete and publish callback, an
  edit of a post that is not posted, and a startup in which no scheduled post that is due
  has an entry.
\<close>

fun safe :: "state \<Rightarrow> op \<Rightarrow> bool" where
  "safe s (Edit e i f) = (status_of i s \<noteq> Some ''posted'')"
| "safe s (Startup e) =
     list_all (\<lambda>p. \<not> (status p = ''scheduled'' \<and> due e p) \<or> jobs_of (post_id p) s = [])
       (posts s)"
| "safe s x = True"

fun all_safe :: "state \<Rightarrow> op list \<Rightarrow> bool" where
  "all_safe s [] = True"
| "all_safe s (x # xs) = (safe s x \<and> all_safe (step s x) xs)"

section \<open>Concrete inputs\<close>

text \<open>
  Environments: one in which no collaborator fails, one whose job store rejects every
  registration, one in which \<^verbatim>\<open>os.remove\<close> always fails, one whose job store rejects the
  task of post 5. The clock reads 100.
\<close>

definition ok_env :: env where
  "ok_env = \<lparr>now = (\<lambda>i. 100), add_job_fails = (\<lambda>k. False), os_remove_fails = (\<lambda>n. False)\<rparr>"

definition rejecting_env :: env where
  "rejecting_env = \<lparr>now = (\<lambda>i. 100), add_job_fails = (\<lambda>k. True), os_remove_fails = (\<lambda>n. False)\<rparr>"

definition flaky_env :: env where
  "flaky_env = \<lparr>now = (\<lambda>i. 100), add_job_fails = (\<lambda>k. False), os_remove_fails = (\<lambda>n. True)\<rparr>"

definition picky_env :: env where
  "picky_env = \<lparr>now = (\<lambda>i. 100), add_job_fails = (\<lambda>k. k = ''post_5''),
     os_remove_fails = (\<lambda>n. False)\<rparr>"

text \<open>Posts: A is scheduled and overdue (naive time), B is posted, E and F are scheduled
  for later (E naive, F aware).\<close>

definition post_A :: post where
  "post_A = \<lparr>post_id = 1, title = ''A'', content = ''hello'', platform = ''x'',
     scheduled_time = \<lparr>wall = 50, tzinfo = None\<rparr>, status = ''scheduled'', image_filename = None\<rparr>"

definition post_B :: post where
  "post_B = \<lparr>post_id = 2, title = ''B'', content = ''world'', platform = ''y'',
     scheduled_time = \<lparr>wall = 500000, tzinfo = Some 19800\<rparr>, status = ''posted'',
     image_filename = Some ''b.png''\<rparr>"

definition post_E :: post where
  "post_E = \<lparr>post_id = 5, title = ''E'', content = ''later'', platform = ''x'',
     scheduled_time = \<lparr>wall = 600000, tzinfo = None\<rparr>, status = ''scheduled'',
     image_filename = None\<rparr>"

definition post_F :: post where
  "post_F = \<lparr>post_id = 6, title = ''F'', content = ''latest'', platform = ''x'',
     scheduled_time = \<lparr>wall = 700000, tzinfo = Some 0\<rparr>, status = ''scheduled'',
     image_filename = None\<rparr>"

text \<open>Stores and forms.\<close>

definition state_AB :: state where
  "state_AB = \<lparr>posts = [post_A, post_B], jobs = [job_for 1 (scheduled_time post_A)],
     files = [''b.png''], trace = []\<rparr>"

definition state_B :: state where
  "state_B = \<lparr>posts = [post_B], jobs = [], files = [''b.png''], trace = []\<rparr>"

definition state_mix :: state where
  "state_mix = \<lparr>posts = [post_A, post_B, post_E, post_F], jobs = [], files = [], trace = []\<rparr>"

definition form_past :: form where
  "form_past = \<lparr>f_title = ''A'', f_content = ''hello'', f_platform = ''x'',
     f_scheduled_time = 50, f_image = None\<rparr>"

definition form_C :: form where
  "form_C = \<lparr>f_title = ''C'', f_content = ''text'', f_platform = ''z'',
     f_scheduled_time = 900000, f_image = Some ''c.png''\<rparr>"

definition form_D :: form where
  "form_D = \<lparr>f_title = ''D'', f_content = ''more'', f_platform = ''z'',
     f_scheduled_time = 700000, f_image = None\<rparr>"

text \<open>
  A first post, created through the form at 2023-11-14T22:14 with an image, by the
  application and by the draft, and the form of an edit that moves it one hour later.
\<close>

definition form_first :: form where
  "form_first = \<lparr>f_title = ''A'', f_content = ''hello'', f_platform = ''x'',
     f_scheduled_time = 1700000040, f_image = Some ''a.png''\<rparr>"

definition form_second :: form where
  "form_second = \<lparr>f_title = ''A'', f_content = ''hello'', f_platform = ''x'',
     f_scheduled_time = 1700003640, f_image = None\<rparr>"

definition draft_created :: state where
  "draft_created = snd (schedule_tmp ok_env (POST form_first) init_state)"

definition app_created :: state where
  "app_created = snd (schedule ok_env (POST form_first) init_state)"

section \<open>Basic facts\<close>

lemma get_post_Some_id: "get_post i ps = Some p \<Longrightarrow> post_id p = i"
  by (auto simp: get_post_def find_Some_iff)

lemma get_post_Some_mem: "get_post i ps = Some p \<Longrightarrow> p \<in> set ps"
  by (auto simp: get_post_def find_Some_iff)

lemma get_post_None_iff: "get_post i ps = None \<longleftrightarrow> i \<notin> post_id ` set ps"
  by (auto simp: get_post_def find_None_iff)

lemma get_post_set_status:
  "get_post i (set_status i v ps) = map_option (\<lambda>p. p\<lparr>status := v\<rparr>) (get_post i ps)"
  by (induction ps) (auto simp: get_post_def set_status_def)

lemma get_post_set_status_other:
  "j \<noteq> i \<Longrightarrow> get_post j (set_status i v ps) = get_post j ps"
  by (induction ps) (auto simp: get_post_def set_status_def)

section \<open>The publish handler: behaviour and frame\<close>

text \<open>
  C1. For every post id, \<^verbatim>\<open>publish_post\<close> does one of three things. If no post has the id,
  or the post's status is not "scheduled", the post store, the job store and the files are
  unchanged and no notification is emitted. Otherwise the post's status becomes "posted",
  the change is committed, and exactly one notification for that post id with status
  "posted" is emitted.
\<close>

theorem publish_post_behaviour:
  "(get_post i (posts s) = None \<longrightarrow>
      posts (publish_post i s) = posts s \<and> jobs (publish_post i s) = jobs s \<and>
      files (publish_post i s) = files s \<and> emitted (publish_post i s) = emitted s) \<and>
   (\<forall>p. get_post i (posts s) = Some p \<longrightarrow> status p \<noteq> ''scheduled'' \<longrightarrow>
      posts (publish_post i s) = posts s \<and> jobs (publish_post i s) = jobs s \<and>
      files (publish_post i s) = files s \<and> emitted (publish_post i s) = emitted s) \<and>
   (\<forall>p. get_post i (posts s) = Some p \<longrightarrow> status p = ''scheduled'' \<longrightarrow>
      get_post i (posts (publish_post i s)) = Some (p\<lparr>status := ''posted''\<rparr>) \<and>
      jobs (publish_post i s) = jobs s \<and> files (publish_post i s) = files s \<and>
      trace (publish_post i s) = trace s @ [Commit, Emit i ''posted'', Log INFO ''publish_post''] \<and>
      emitted (publish_post i s) = emitted s @ [(i, ''posted'')])"
proof -
  have "get_post i (posts (publish_post i s)) = Some (p\<lparr>status := ''posted''\<rparr>)"
    if "get_post i (posts s) = Some p" "status p = ''scheduled''" for p
    using that get_post_Some_id [OF that(1)]
    by (simp add: publish_post_def get_post_set_status)
  moreover have "trace (publish_post i s) = trace s @ [Commit, Emit i ''posted'', Log INFO ''publish_post'']"
    if "get_post i (posts s) = Some p" "status p = ''scheduled''" for p
    using that get_post_Some_id [OF that(1)] by (simp add: publish_post_def)
  ultimately show ?thesis
    by (auto simp: publish_post_def emitted_def)
qed

theorem publish_post_behaviour_witness:
  "get_post 3 (posts state_AB) = None \<and> emitted (publish_post 3 state_AB) = emitted state_AB \<and>
   posts (publish_post 3 state_AB) = posts state_AB \<and>
   get_post 2 (posts state_AB) = Some post_B \<and> status post_B \<noteq> ''scheduled'' \<and>
   emitted (publish_post 2 state_AB) = emitted state_AB \<and>
   posts (publish_post 2 state_AB) = posts state_AB \<and>
   get_post 1 (posts state_AB) = Some post_A \<and> status post_A = ''scheduled'' \<and>
   get_post 1 (posts (publish_post 1 state_AB)) = Some (post_A\<lparr>status := ''posted''\<rparr>) \<and>
   emitted (publish_post 1 state_AB) = emitted state_AB @ [(1, ''posted'')]"
proof -
  have a: "get_post 3 (posts state_AB) = None"
    by (simp add: state_AB_def post_A_def post_B_def get_post_def)
  have b: "get_post 2 (posts state_AB) = Some post_B" "status post_B \<noteq> ''scheduled''"
    by (simp_all add: state_AB_def post_A_def post_B_def get_post_def)
  have c: "get_post 1 (posts state_AB) = Some post_A" "status post_A = ''scheduled''"
    by (simp_all add: state_AB_def post_A_def post_B_def get_post_def)
  show ?thesis
    using a b c publish_post_behaviour [of 3 state_AB] publish_post_behaviour [of 2 state_AB]
      publish_post_behaviour [of 1 state_AB]
    by simp
qed

text \<open>
  C10. \<^verbatim>\<open>publish_post\<close> changes at most the status of the targeted post: the table keeps
  its length and every row keeps its id, title, content, platform, scheduled time and image
  file name; a row with another id is unchanged; the job store and the files are unchanged;
  and on both early returns (post absent, status not "scheduled") the whole table is
  unchanged.
\<close>

theorem publish_post_frame:
  "length (posts (publish_post i s)) = length (posts s) \<and>
   (\<forall>k < length (posts s).
      post_id (posts (publish_post i s) ! k) = post_id (posts s ! k) \<and>
      title (posts (publish_post i s) ! k) = title (posts s ! k) \<and>
      content (posts (publish_post i s) ! k) = content (posts s ! k) \<and>
      platform (posts (publish_post i s) ! k) = platform (posts s ! k) \<and>
      scheduled_time (posts (publish_post i s) ! k) = scheduled_time (posts s ! k) \<and>
      image_filename (posts (publish_post i s) ! k) = image_filename (posts s ! k) \<and>
      (post_id (posts s ! k) \<noteq> i \<longrightarrow> posts (publish_post i s) ! k = posts s ! k)) \<and>
   jobs (publish_post i s) = jobs s \<and> files (publish_post i s) = files s \<and>
   ((case get_post i (posts s) of None \<Rightarrow> True | Some p \<Rightarrow> status p \<noteq> ''scheduled'') \<longrightarrow>
      posts (publish_post i s) = posts s)"
  by (auto simp: publish_post_def set_status_def split: option.splits dest: get_post_Some_id)

theorem publish_post_frame_witness:
  "length (posts (publish_post 1 state_AB)) = length (posts state_AB) \<and>
   (1::nat) < length (posts state_AB) \<and>
   post_id (posts state_AB ! 1) \<noteq> 1 \<and>
   posts (publish_post 1 state_AB) ! 1 = posts state_AB ! 1 \<and>
   title (posts (publish_post 1 state_AB) ! 0) = title (posts state_AB ! 0) \<and>
   status (posts (publish_post 1 state_AB) ! 0) = ''posted'' \<and>
   (case get_post 2 (posts state_AB) of None \<Rightarrow> True | Some p \<Rightarrow> status p \<noteq> ''scheduled'') \<and>
   posts (publish_post 2 state_AB) = posts state_AB"
proof -
  have k: "(1::nat) < length (posts state_AB)" "(0::nat) < length (posts state_AB)"
     "post_id (posts state_AB ! 1) \<noteq> 1"
    by (simp_all add: state_AB_def post_B_def)
  have e: "(case get_post 2 (posts state_AB) of None \<Rightarrow> True | Some p \<Rightarrow> status p \<noteq> ''scheduled'')"
    by (simp add: state_AB_def post_A_def post_B_def get_post_def)
  have st: "status (posts (publish_post 1 state_AB) ! 0) = ''posted''"
    by (simp add: publish_post_def state_AB_def post_A_def post_B_def get_post_def set_status_def)
  show ?thesis
    using k e st publish_post_frame [of 1 state_AB] publish_post_frame [of 2 state_AB]
    by simp
qed

section \<open>Facts about the stores\<close>

lemma fresh_id_greater: "p \<in> set ps \<Longrightarrow> post_id p < fresh_id ps"
  by (induction ps) (auto simp: fresh_id_def)

lemma fresh_id_fresh: "get_post (fresh_id ps) ps = None"
  using fresh_id_greater [of _ ps] by (fastforce simp: get_post_None_iff)

lemma get_post_append_fresh:
  "get_post i ps = None \<Longrightarrow> post_id q = i \<Longrightarrow> get_post i (ps @ [q]) = Some q"
  by (induction ps) (auto simp: get_post_def)

lemma get_post_update_post:
  "get_post (post_id q) ps \<noteq> None \<Longrightarrow> get_post (post_id q) (update_post q ps) = Some q"
  by (induction ps) (auto simp: get_post_def update_post_def)

lemma get_post_filter_other:
  "get_post i (filter (\<lambda>q. post_id q \<noteq> i) ps) = None"
  by (induction ps) (auto simp: get_post_def)

lemma find_job_filter_same: "find_job k (filter (\<lambda>j. jid j \<noteq> k) js) = None"
  by (induction js) (auto simp: find_job_def)

lemma try_add_job_posts [simp]: "posts (try_add_job e tag j s) = posts s"
  by (simp add: try_add_job_def split: sum.splits)

lemma try_add_job_files [simp]: "files (try_add_job e tag j s) = files s"
  by (simp add: try_add_job_def split: sum.splits)

lemma try_add_job_rejected:
  "add_job_fails e (jid j) \<Longrightarrow>
   try_add_job e tag j s = s\<lparr>trace := trace s @ [AddJob (jid j) (run_date j) (args j), Log ERROR tag]\<rparr>"
  by (simp add: try_add_job_def add_job_def)

lemma try_add_job_accepted:
  "\<not> add_job_fails e (jid j) \<Longrightarrow>
   try_add_job e tag j s = s\<lparr>jobs := put_job j (jobs s),
      trace := trace s @ [AddJob (jid j) (run_date j) (args j), Log INFO tag]\<rparr>"
  by (simp add: try_add_job_def add_job_def)

lemma jid_job_for [simp]: "jid (job_for i t) = job_id i"
  by (simp add: job_for_def)

lemma find_job_None_iff: "find_job k js = None \<longleftrightarrow> (\<forall>x \<in> set js. jid x \<noteq> k)"
  by (auto simp: find_job_def find_None_iff)

lemma find_job_None_image: "find_job k js = None \<longleftrightarrow> k \<notin> jid ` set js"
  by (auto simp: find_job_None_iff)

lemma filter_absent_job: "find_job k js = None \<Longrightarrow> filter (\<lambda>j. jid j \<noteq> k) js = js"
  by (simp add: find_job_None_iff)

lemma delete_posts:
  "posts (snd (delete e j s)) = (if get_post j (posts s) = None then posts s
      else filter (\<lambda>q. post_id q \<noteq> j) (posts s))"
proof (cases "get_post j (posts s)")
  case None
  then show ?thesis by (simp add: delete_def)
next
  case (Some q)
  have "posts (delete_image e q t) = posts t" for t
    by (simp add: delete_image_def split: option.splits)
  moreover have "posts (delete_job q s) = posts s"
    by (simp add: delete_job_def Let_def split: sum.splits)
  ultimately show ?thesis
    using Some get_post_Some_id [OF Some] by (simp add: delete_def delete_row_def)
qed

lemma delete_jobs:
  "jobs (snd (delete e i s)) =
     (if get_post i (posts s) = None then jobs s
      else filter (\<lambda>j. jid j \<noteq> job_id i) (jobs s))"
proof (cases "get_post i (posts s)")
  case None
  then show ?thesis by (simp add: delete_def)
next
  case (Some q)
  have "jobs (delete_image e q t) = jobs t" for t
    by (simp add: delete_image_def split: option.splits)
  moreover have "jobs (delete_job q s) = filter (\<lambda>j. jid j \<noteq> job_id i) (jobs s)"
    using get_post_Some_id [OF Some]
    by (simp add: delete_job_def remove_job_def Let_def filter_absent_job)
  ultimately show ?thesis using Some by (simp add: delete_def delete_row_def)
qed

text \<open>The first post, as the application and as the draft store it.\<close>

lemma job_id_tmp_first: "job_id_tmp 1 \<lparr>aware_wall = 1700000040, utcoffset = 19800\<rparr> = ''post_1_1699980240''"
  by (simp add: job_id_tmp_def str_int_def instant_def str_nat.simps digit_char_def)

lemma job_id_first: "job_id 1 = ''post_1''"
  by (simp add: job_id_def str_int_def str_nat.simps digit_char_def)

lemma draft_created_eq:
  "draft_created =
     \<lparr>posts = [\<lparr>post_id = 1, title = ''A'', content = ''hello'', platform = ''x'',
                 scheduled_time = \<lparr>wall = 1700000040, tzinfo = Some 19800\<rparr>,
                 status = ''pending'', image_filename = Some ''a.png''\<rparr>],
      jobs = [\<lparr>jid = ''post_1_1699980240'',
                run_date = \<lparr>aware_wall = 1700000040, utcoffset = 19800\<rparr>, args = 1\<rparr>],
      files = [''a.png''],
      trace = [SaveFile ''a.png'', Commit,
               AddJob ''post_1_1699980240'' \<lparr>aware_wall = 1700000040, utcoffset = 19800\<rparr> 1]\<rparr>"
  using job_id_tmp_first
  by (simp add: draft_created_def schedule_tmp_def form_first_def init_state_def ok_env_def
        fresh_id_def save_file_def normalize_time_def IST_def add_job_def put_job_def
        find_job_def Let_def)

lemma app_created_eq:
  "app_created =
     \<lparr>posts = [\<lparr>post_id = 1, title = ''A'', content = ''hello'', platform = ''x'',
                 scheduled_time = \<lparr>wall = 1700000040, tzinfo = Some 19800\<rparr>,
                 status = ''scheduled'', image_filename = Some ''a.png''\<rparr>],
      jobs = [\<lparr>jid = ''post_1'',
                run_date = \<lparr>aware_wall = 1700000040, utcoffset = 19800\<rparr>, args = 1\<rparr>],
      files = [''a.png''],
      trace = [SaveFile ''a.png'', Commit,
               AddJob ''post_1'' \<lparr>aware_wall = 1700000040, utcoffset = 19800\<rparr> 1,
               Log INFO ''Schedule'']\<rparr>"
  using job_id_first
  by (simp add: app_created_def schedule_def form_first_def init_state_def ok_env_def
        fresh_id_def save_file_def normalize_time_def IST_def add_job_def put_job_def
        find_job_def Let_def try_add_job_def job_for_def)

section \<open>Delete\<close>

text \<open>
  C6. When an existing post has no live entry under its task id, the cancellation step of
  \<^verbatim>\<open>delete\<close> meets the scheduler's lookup error, logs a warning and changes nothing
  else; the request is answered with the redirect (no error reaches the caller), the job
  store is as before and the post's row is deleted.
\<close>

theorem delete_tolerates_absent_job:
  assumes "get_post i (posts s) = Some p" and "find_job (job_id i) (jobs s) = None"
  shows "remove_job (job_id i) (jobs s) = Inl JobLookupError \<and>
         delete_job p s = s\<lparr>trace := trace s @ [RemoveJob (job_id i), Log WARNING ''Delete'']\<rparr> \<and>
         fst (delete e i s) = Inr Redirect_index \<and>
         jobs (snd (delete e i s)) = jobs s \<and>
         get_post i (posts (snd (delete e i s))) = None \<and>
         posts (snd (delete e i s)) = filter (\<lambda>q. post_id q \<noteq> i) (posts s)"
proof -
  have id: "post_id p = i" using assms(1) by (rule get_post_Some_id)
  have r: "remove_job (job_id i) (jobs s) = Inl JobLookupError"
    using assms(2) by (simp add: remove_job_def)
  have dj: "delete_job p s = s\<lparr>trace := trace s @ [RemoveJob (job_id i), Log WARNING ''Delete'']\<rparr>"
    using r id by (simp add: delete_job_def Let_def)
  have ji: "jobs (delete_image e p t) = jobs t" "posts (delete_image e p t) = posts t" for t
    by (simp_all add: delete_image_def split: option.splits)
  show ?thesis
    using assms(1) r dj id
    by (simp add: delete_def delete_row_def ji get_post_filter_other)
qed

theorem delete_tolerates_absent_job_witness:
  "get_post 2 (posts state_B) = Some post_B \<and> find_job (job_id 2) (jobs state_B) = None \<and>
   fst (delete ok_env 2 state_B) = Inr Redirect_index \<and>
   jobs (snd (delete ok_env 2 state_B)) = jobs state_B \<and>
   get_post 2 (posts (snd (delete ok_env 2 state_B))) = None"
proof -
  have a: "get_post 2 (posts state_B) = Some post_B"
    by (simp add: state_B_def post_B_def get_post_def)
  have b: "find_job (job_id 2) (jobs state_B) = None"
    by (simp add: state_B_def find_job_def)
  show ?thesis
    using a b delete_tolerates_absent_job [OF a b, of ok_env] by blast
qed

text \<open>
  The order of the steps in the application. For an existing post, the effects of
  \<^verbatim>\<open>delete\<close> of \<^verbatim>\<open>app.py\<close> come in this order: the call of \<^verbatim>\<open>remove_job\<close> for the post's
  task id (and its log record), then the removal of the uploaded image file when the post
  names one that exists, then the deletion of the row and the commit. Afterwards no entry
  is left under the task id, the image file is gone unless its removal failed, and the row
  is gone.
\<close>

theorem delete_order:
  assumes "get_post i (posts s) = Some p"
  shows "trace (snd (delete e i s)) =
           trace s
           @ [RemoveJob (job_id i),
              Log (if find_job (job_id i) (jobs s) = None then WARNING else INFO) ''Delete'']
           @ (case image_filename p of
                None \<Rightarrow> []
              | Some n \<Rightarrow>
                  if n \<noteq> [] \<and> n \<in> set (files s)
                  then OsRemove n # (if os_remove_fails e n then [Log ERROR ''Delete''] else [])
                  else [])
           @ [DbDelete i, Commit] \<and>
         find_job (job_id i) (jobs (snd (delete e i s))) = None \<and>
         jobs (snd (delete e i s)) = filter (\<lambda>j. jid j \<noteq> job_id i) (jobs s) \<and>
         files (snd (delete e i s)) =
           (case image_filename p of
              None \<Rightarrow> files s
            | Some n \<Rightarrow>
                if n \<noteq> [] \<and> n \<in> set (files s) \<and> \<not> os_remove_fails e n
                then removeAll n (files s) else files s) \<and>
         get_post i (posts (snd (delete e i s))) = None \<and>
         posts (snd (delete e i s)) = filter (\<lambda>q. post_id q \<noteq> i) (posts s)"
proof -
  have id: "post_id p = i" using assms by (rule get_post_Some_id)
  have ji: "jobs (delete_image e p t) = jobs t" "posts (delete_image e p t) = posts t" for t
    by (simp_all add: delete_image_def split: option.splits)
  have fj: "files (delete_job p s) = files s"
    by (simp add: delete_job_def remove_job_def Let_def)
  have j: "find_job (job_id i) (jobs (delete_job p s)) = None"
    using id by (simp add: delete_job_def remove_job_def find_job_filter_same Let_def)
  have t1: "trace (delete_job p s) = trace s @ [RemoveJob (job_id i),
              Log (if find_job (job_id i) (jobs s) = None then WARNING else INFO) ''Delete'']"
    using id by (simp add: delete_job_def remove_job_def Let_def)
  have t2: "trace (delete_image e p t) = trace t @ (case image_filename p of
                None \<Rightarrow> []
              | Some n \<Rightarrow>
                  if n \<noteq> [] \<and> n \<in> set (files t)
                  then OsRemove n # (if os_remove_fails e n then [Log ERROR ''Delete''] else [])
                  else [])" for t
    by (simp add: delete_image_def split: option.splits)
  have f2: "files (delete_image e p t) = (case image_filename p of
              None \<Rightarrow> files t
            | Some n \<Rightarrow>
                if n \<noteq> [] \<and> n \<in> set (files t) \<and> \<not> os_remove_fails e n
                then removeAll n (files t) else files t)" for t
    by (simp add: delete_image_def split: option.splits)
  have tr: "trace (snd (delete e i s)) =
           trace s
           @ [RemoveJob (job_id i),
              Log (if find_job (job_id i) (jobs s) = None then WARNING else INFO) ''Delete'']
           @ (case image_filename p of
                None \<Rightarrow> []
              | Some n \<Rightarrow>
                  if n \<noteq> [] \<and> n \<in> set (files s)
                  then OsRemove n # (if os_remove_fails e n then [Log ERROR ''Delete''] else [])
                  else [])
           @ [DbDelete i, Commit]"
    using assms id
    by (simp add: delete_def delete_row_def t1 t2 fj cong: option.case_cong)
  have fl: "files (snd (delete e i s)) =
           (case image_filename p of
              None \<Rightarrow> files s
            | Some n \<Rightarrow>
                if n \<noteq> [] \<and> n \<in> set (files s) \<and> \<not> os_remove_fails e n
                then removeAll n (files s) else files s)"
    using assms by (simp add: delete_def delete_row_def f2 fj cong: option.case_cong if_cong)
  have rest: "find_job (job_id i) (jobs (snd (delete e i s))) = None \<and>
         jobs (snd (delete e i s)) = filter (\<lambda>j. jid j \<noteq> job_id i) (jobs s) \<and>
         get_post i (posts (snd (delete e i s))) = None \<and>
         posts (snd (delete e i s)) = filter (\<lambda>q. post_id q \<noteq> i) (posts s)"
    using assms by (simp add: delete_jobs delete_posts find_job_filter_same get_post_filter_other)
  show ?thesis using tr fl rest by blast
qed

theorem delete_order_witness:
  "get_post 1 (posts app_created) = Some (new_post form_first init_state) \<and>
   trace (snd (delete ok_env 1 app_created)) =
     trace app_created @ [RemoveJob (job_id 1), Log INFO ''Delete'', OsRemove ''a.png'',
                          DbDelete 1, Commit] \<and>
   jobs (snd (delete ok_env 1 app_created)) = [] \<and>
   files app_created = [''a.png''] \<and>
   files (snd (delete ok_env 1 app_created)) = [] \<and>
   posts (snd (delete ok_env 1 app_created)) = []"
proof -
  have a: "get_post 1 (posts app_created) = Some (new_post form_first init_state)"
    by (simp add: app_created_eq get_post_def new_post_def form_first_def init_state_def
          fresh_id_def IST_def)
  have im: "image_filename (new_post form_first init_state) = Some ''a.png''"
    by (simp add: new_post_def form_first_def)
  have fj: "find_job (job_id 1) (jobs app_created) \<noteq> None"
    by (simp add: app_created_eq find_job_def job_id_first)
  have st: "files app_created = [''a.png'']"
       "jobs app_created = [\<lparr>jid = job_id 1,
                run_date = \<lparr>aware_wall = 1700000040, utcoffset = 19800\<rparr>, args = 1\<rparr>]"
       "map post_id (posts app_created) = [1]"
    by (simp_all add: app_created_eq job_id_first)
  have nf: "\<not> os_remove_fails ok_env n" for n by (simp add: ok_env_def)
  have ps: "filter (\<lambda>q. post_id q \<noteq> 1) (posts app_created) = []"
    by (simp add: app_created_eq)
  note t = delete_order [OF a, of ok_env]
  show ?thesis
    using a t im fj st(1,2) nf ps by simp
qed

text \<open>The draft's \<^verbatim>\<open>delete\<close> has no cancellation step.\<close>

lemma delete_tmp_keeps_jobs: "jobs (snd (delete_tmp e i s)) = jobs s"
  by (simp add: delete_tmp_def delete_row_def split: option.splits)

lemma delete_tmp_no_cancel: "RemoveJob k \<in> set (trace (snd (delete_tmp e i s))) \<Longrightarrow> RemoveJob k \<in> set (trace s)"
  by (auto simp: delete_tmp_def delete_row_def split: option.splits if_splits)

text \<open>
  C7. The delete operation is to cancel the post's scheduled task, then remove the image
  file, then delete the row. The draft's \<^verbatim>\<open>delete\<close> has no first step: on the post created
  through its own \<^verbatim>\<open>schedule\<close> it removes the image file and the row and leaves the task
  in the job store, where \<^verbatim>\<open>delete\<close> of \<^verbatim>\<open>app.py\<close> on the same post cancels first.
\<close>

theorem draft_delete_leaves_job:
  "jobs draft_created =
     [\<lparr>jid = ''post_1_1699980240'',
       run_date = \<lparr>aware_wall = 1700000040, utcoffset = 19800\<rparr>, args = 1\<rparr>] \<and>
   fst (delete_tmp ok_env 1 draft_created) = Inr Redirect_index \<and>
   posts (snd (delete_tmp ok_env 1 draft_created)) = [] \<and>
   files (snd (delete_tmp ok_env 1 draft_created)) = [] \<and>
   jobs (snd (delete_tmp ok_env 1 draft_created)) = jobs draft_created \<and>
   trace (snd (delete_tmp ok_env 1 draft_created)) =
     trace draft_created @ [OsRemove ''a.png'', DbDelete 1, Commit] \<and>
   jobs (snd (delete ok_env 1 app_created)) = [] \<and>
   trace (snd (delete ok_env 1 app_created)) =
     trace app_created @ [RemoveJob ''post_1'', Log INFO ''Delete'', OsRemove ''a.png'',
                          DbDelete 1, Commit]"
proof -
  have a: "fst (delete_tmp ok_env 1 draft_created) = Inr Redirect_index \<and>
   posts (snd (delete_tmp ok_env 1 draft_created)) = [] \<and>
   files (snd (delete_tmp ok_env 1 draft_created)) = [] \<and>
   jobs (snd (delete_tmp ok_env 1 draft_created)) = jobs draft_created \<and>
   trace (snd (delete_tmp ok_env 1 draft_created)) =
     trace draft_created @ [OsRemove ''a.png'', DbDelete 1, Commit]"
    by (simp add: draft_created_eq delete_tmp_def delete_row_def get_post_def ok_env_def)
  have b: "jobs (snd (delete ok_env 1 app_created)) = [] \<and>
   trace (snd (delete ok_env 1 app_created)) =
     trace app_created @ [RemoveJob ''post_1'', Log INFO ''Delete'', OsRemove ''a.png'',
                          DbDelete 1, Commit]"
    using job_id_first
    by (simp add: app_created_eq delete_def delete_job_def delete_image_def delete_row_def
          remove_job_def find_job_def get_post_def ok_env_def Let_def)
  show ?thesis using a b by (simp add: draft_created_eq)
qed

section \<open>Listing\<close>

text \<open>
  C9. \<^verbatim>\<open>index\<close> returns every stored post, ordered by scheduled time: \<^verbatim>\<open>app.py\<close> lists
  the latest first, the draft the earliest first.
\<close>

theorem index_ordered:
  "mset (index s) = mset (posts s) \<and>
   sorted_wrt (\<lambda>p q. wall (scheduled_time p) \<ge> wall (scheduled_time q)) (index s) \<and>
   mset (index_tmp s) = mset (posts s) \<and>
   sorted_wrt (\<lambda>p q. wall (scheduled_time p) \<le> wall (scheduled_time q)) (index_tmp s)"
proof -
  have "sorted (map (\<lambda>p. - wall (scheduled_time p)) (index s))"
    by (simp add: index_def)
  then have a: "sorted_wrt (\<lambda>p q. wall (scheduled_time p) \<ge> wall (scheduled_time q)) (index s)"
    by (simp add: sorted_wrt_map)
  have "sorted (map (\<lambda>p. wall (scheduled_time p)) (index_tmp s))"
    by (simp add: index_tmp_def)
  then have b: "sorted_wrt (\<lambda>p q. wall (scheduled_time p) \<le> wall (scheduled_time q)) (index_tmp s)"
    by (simp add: sorted_wrt_map)
  show ?thesis using a b by (simp add: index_def index_tmp_def)
qed

text \<open>Every time the program writes is naive or IST; then the order of the column is the
  order of the instants.\<close>

lemma index_chronological:
  assumes "\<forall>p \<in> set (posts s). tzinfo (scheduled_time p) = None \<or> tzinfo (scheduled_time p) = Some IST"
  shows "sorted_wrt (\<lambda>p q. instant (normalize_time (scheduled_time p))
                          \<ge> instant (normalize_time (scheduled_time q))) (index s)"
proof -
  have inst: "instant (normalize_time (scheduled_time p)) = wall (scheduled_time p) - IST"
    if "p \<in> set (index s)" for p
  proof -
    have "p \<in> set (posts s)" using that by (simp add: index_def)
    then show ?thesis
      using assms by (auto simp: normalize_time_def instant_def)
  qed
  have "sorted (map (\<lambda>p. - wall (scheduled_time p)) (index s))"
    by (simp add: index_def)
  then have "sorted_wrt (\<lambda>p q. wall (scheduled_time p) \<ge> wall (scheduled_time q)) (index s)"
    by (simp add: sorted_wrt_map)
  then show ?thesis
    by (rule sorted_wrt_mono_rel [rotated]) (simp add: inst)
qed

section \<open>Create and edit\<close>

lemma job_for_form [simp]:
  "job_for i \<lparr>wall = f_scheduled_time f, tzinfo = Some IST\<rparr> =
     \<lparr>jid = job_id i, run_date = form_time f, args = i\<rparr>"
  by (simp add: job_for_def normalize_time_def form_time_def)

lemma try_add_job_jobs:
  "jobs (try_add_job e tag j s) = (if add_job_fails e (jid j) then jobs s else put_job j (jobs s))"
  by (simp add: try_add_job_def add_job_def)

lemma try_add_job_trace:
  "trace (try_add_job e tag j s) =
     trace s @ [AddJob (jid j) (run_date j) (args j),
                Log (if add_job_fails e (jid j) then ERROR else INFO) tag]"
  by (simp add: try_add_job_def add_job_def)

lemma schedule_POST:
  "fst (schedule e (POST f) s) = Inr Redirect_index \<and>
   posts (snd (schedule e (POST f) s)) = posts s @ [new_post f s] \<and>
   jobs (snd (schedule e (POST f) s)) =
     (if add_job_fails e (job_id (fresh_id (posts s))) then jobs s
      else put_job \<lparr>jid = job_id (fresh_id (posts s)), run_date = form_time f,
                    args = fresh_id (posts s)\<rparr> (jobs s)) \<and>
   files (snd (schedule e (POST f) s)) =
     (case f_image f of None \<Rightarrow> files s | Some n \<Rightarrow> save_file n (files s)) \<and>
   trace (snd (schedule e (POST f) s)) =
     trace s @ (case f_image f of None \<Rightarrow> [] | Some n \<Rightarrow> [SaveFile n])
     @ [Commit, AddJob (job_id (fresh_id (posts s))) (form_time f) (fresh_id (posts s)),
        Log (if add_job_fails e (job_id (fresh_id (posts s))) then ERROR else INFO) ''Schedule'']"
  by (simp add: schedule_def new_post_def Let_def try_add_job_jobs try_add_job_trace
        split: option.splits)

lemma edit_POST:
  assumes "get_post i (posts s) = Some p"
    and "f_image f = None \<or> \<not> (truthy (image_filename p) \<and> old_image p \<in> set (files s) \<and> os_remove_fails e (old_image p))"
  shows "fst (edit e i (POST f) s) = Inr Redirect_index \<and>
   posts (snd (edit e i (POST f) s)) = update_post (edited f p) (posts s) \<and>
   jobs (snd (edit e i (POST f) s)) =
     (if add_job_fails e (job_id i) then jobs s
      else put_job \<lparr>jid = job_id i, run_date = form_time f, args = i\<rparr> (jobs s)) \<and>
   files (snd (edit e i (POST f) s)) =
     (case f_image f of
        None \<Rightarrow> files s
      | Some n \<Rightarrow> save_file n
          (if truthy (image_filename p) \<and> old_image p \<in> set (files s)
           then removeAll (old_image p) (files s) else files s)) \<and>
   trace (snd (edit e i (POST f) s)) =
     trace s @ edit_image_trace f p s
     @ [Commit, AddJob (job_id i) (form_time f) i,
        Log (if add_job_fails e (job_id i) then ERROR else INFO) ''Edit'']"
proof -
  have id: "post_id p = i" using assms(1) by (rule get_post_Some_id)
  show ?thesis
  proof (cases "f_image f")
    case None
    then show ?thesis
      using assms(1) id
      by (simp add: edit_def edit_commit_def edited_def edit_image_trace_def Let_def
            try_add_job_jobs try_add_job_trace)
  next
    case (Some n)
    then show ?thesis
      using assms id
      by (simp add: edit_def edit_commit_def edited_def edit_image_trace_def old_image_def Let_def
            try_add_job_jobs try_add_job_trace)
  qed
qed

text \<open>
  C8. When the job store rejects the registration that follows the commit of a create, the
  request is still answered with the redirect, the new row is in the table with status
  "scheduled", the job store is unchanged and the last effect is the error log record.
  The same holds for an edit of an existing post: the edited row stays committed with its
  status untouched.
\<close>

theorem registration_failure_contained:
  "(add_job_fails e (job_id (fresh_id (posts s))) \<longrightarrow>
      fst (schedule e (POST f) s) = Inr Redirect_index \<and>
      posts (snd (schedule e (POST f) s)) = posts s @ [new_post f s] \<and>
      get_post (fresh_id (posts s)) (posts (snd (schedule e (POST f) s))) = Some (new_post f s) \<and>
      status (new_post f s) = ''scheduled'' \<and>
      jobs (snd (schedule e (POST f) s)) = jobs s \<and>
      trace (snd (schedule e (POST f) s)) =
        trace s @ (case f_image f of None \<Rightarrow> [] | Some n \<Rightarrow> [SaveFile n])
        @ [Commit, AddJob (job_id (fresh_id (posts s))) (form_time f) (fresh_id (posts s)),
           Log ERROR ''Schedule'']) \<and>
   (\<forall>p. get_post i (posts s) = Some p \<longrightarrow> add_job_fails e (job_id i) \<longrightarrow>
        \<not> os_remove_fails e (old_image p) \<longrightarrow>
      fst (edit e i (POST f) s) = Inr Redirect_index \<and>
      get_post i (posts (snd (edit e i (POST f) s))) = Some (edited f p) \<and>
      status (edited f p) = status p \<and>
      jobs (snd (edit e i (POST f) s)) = jobs s \<and>
      trace (snd (edit e i (POST f) s)) =
        trace s @ edit_image_trace f p s
        @ [Commit, AddJob (job_id i) (form_time f) i, Log ERROR ''Edit''])"
proof -
  have a: "get_post (fresh_id (posts s)) (posts s @ [new_post f s]) = Some (new_post f s)"
    by (rule get_post_append_fresh [OF fresh_id_fresh]) (simp add: new_post_def)
  have b: "get_post i (update_post (edited f p) (posts s)) = Some (edited f p)"
    if "get_post i (posts s) = Some p" for p
  proof -
    have "post_id (edited f p) = i"
      using get_post_Some_id [OF that] by (simp add: edited_def)
    then show ?thesis
      using get_post_update_post [of "edited f p" "posts s"] that by simp
  qed
  show ?thesis
    using a b
    by (auto simp: schedule_POST edit_POST new_post_def edited_def)
qed

theorem registration_failure_contained_witness:
  "add_job_fails rejecting_env (job_id (fresh_id (posts state_AB))) \<and>
   fst (schedule rejecting_env (POST form_C) state_AB) = Inr Redirect_index \<and>
   get_post 3 (posts (snd (schedule rejecting_env (POST form_C) state_AB))) =
     Some (new_post form_C state_AB) \<and>
   jobs (snd (schedule rejecting_env (POST form_C) state_AB)) = jobs state_AB \<and>
   get_post 1 (posts state_AB) = Some post_A \<and> add_job_fails rejecting_env (job_id 1) \<and>
   \<not> os_remove_fails rejecting_env (old_image post_A) \<and>
   fst (edit rejecting_env 1 (POST form_C) state_AB) = Inr Redirect_index \<and>
   get_post 1 (posts (snd (edit rejecting_env 1 (POST form_C) state_AB))) =
     Some (edited form_C post_A) \<and>
   jobs (snd (edit rejecting_env 1 (POST form_C) state_AB)) = jobs state_AB"
proof -
  have r: "add_job_fails rejecting_env k" "\<not> os_remove_fails rejecting_env n" for k n
    by (simp_all add: rejecting_env_def)
  have fr: "fresh_id (posts state_AB) = 3"
    by (simp add: fresh_id_def state_AB_def post_A_def post_B_def)
  have a: "get_post 1 (posts state_AB) = Some post_A"
    by (simp add: state_AB_def post_A_def get_post_def)
  note t = registration_failure_contained [of rejecting_env state_AB form_C 1, unfolded fr]
  show ?thesis
    using r fr a t by blast
qed

lemma map_jid_put_job:
  "map jid (put_job j js) = (if find_job (jid j) js = None then map jid js @ [jid j] else map jid js)"
  by (auto simp: put_job_def intro: map_idI)

lemma put_job_distinct: "distinct (map jid js) \<Longrightarrow> distinct (map jid (put_job j js))"
  by (auto simp: map_jid_put_job find_job_None_image)

lemma filter_replace_distinct:
  "distinct (map jid js) \<Longrightarrow> k \<in> jid ` set js \<Longrightarrow> jid j = k \<Longrightarrow>
   filter (\<lambda>x. jid x = k) (map (\<lambda>x. if jid x = k then j else x) js) = [j]"
proof (induction js)
  case Nil
  then show ?case by simp
next
  case (Cons a js)
  show ?case
  proof (cases "jid a = k")
    case True
    have "jid a \<notin> jid ` set js" using Cons.prems(1) by simp
    then have "\<forall>x \<in> set js. jid x \<noteq> k" using True by (metis imageI)
    then have "filter (\<lambda>x. jid x = k) (map (\<lambda>x. if jid x = k then j else x) js) = []"
      by (auto simp: filter_empty_conv)
    then show ?thesis using True Cons.prems(3) by simp
  next
    case False
    then show ?thesis using Cons by auto
  qed
qed

lemma put_job_filter:
  "distinct (map jid js) \<Longrightarrow> filter (\<lambda>x. jid x = jid j) (put_job j js) = [j]"
proof (cases "find_job (jid j) js = None")
  case True
  assume "distinct (map jid js)"
  have "filter (\<lambda>x. jid x = jid j) js = []"
    using True by (auto simp: find_job_None_iff filter_empty_conv)
  then show ?thesis using True by (simp add: put_job_def)
next
  case False
  assume d: "distinct (map jid js)"
  have "jid j \<in> jid ` set js" using False by (simp add: find_job_None_image)
  from filter_replace_distinct [OF d this refl] show ?thesis
    using False by (auto simp: put_job_def)
qed

lemma map_post_id_update_post:
  "map post_id (update_post q ps) = map post_id ps"
  by (simp add: update_post_def)

lemma get_post_update_post_None:
  "get_post i (update_post q ps) = None \<longleftrightarrow> get_post i ps = None"
proof -
  have "post_id ` set (update_post q ps) = post_id ` set ps"
    using map_post_id_update_post [of q ps] by (metis list.set_map)
  then show ?thesis by (simp add: get_post_None_iff)
qed

lemma edit_unchanged_or_POST:
  "(posts (snd (edit e i req s)) = posts s \<and> jobs (snd (edit e i req s)) = jobs s) \<or>
   (\<exists>p f. req = POST f \<and> get_post i (posts s) = Some p \<and>
      posts (snd (edit e i req s)) = update_post (edited f p) (posts s) \<and>
      jobs (snd (edit e i req s)) =
        (if add_job_fails e (job_id i) then jobs s
         else put_job \<lparr>jid = job_id i, run_date = form_time f, args = i\<rparr> (jobs s)))"
proof (cases "get_post i (posts s)")
  case None
  then show ?thesis by (simp add: edit_def)
next
  case (Some p)
  show ?thesis
  proof (cases req)
    case GET
    then show ?thesis using Some by (simp add: edit_def)
  next
    case (POST f)
    show ?thesis
    proof (cases "f_image f = None \<or> \<not> (truthy (image_filename p) \<and> old_image p \<in> set (files s) \<and> os_remove_fails e (old_image p))")
      case True
      from edit_POST [OF Some True] show ?thesis using POST Some by simp
    next
      case False
      then show ?thesis using POST Some
        by (auto simp: edit_def old_image_def Let_def)
    qed
  qed
qed

lemma edit_keeps_post:
  "get_post i (posts s) \<noteq> None \<Longrightarrow> get_post i (posts (snd (edit e j req s))) \<noteq> None"
proof -
  assume a: "get_post i (posts s) \<noteq> None"
  then have "get_post i (update_post q (posts s)) \<noteq> None" for q
    by (simp add: get_post_update_post_None)
  then show ?thesis
    using a edit_unchanged_or_POST [of e j req s] by (elim disjE exE conjE) simp_all
qed

lemma edit_keeps_distinct_jobs:
  "distinct (map jid (jobs s)) \<Longrightarrow> distinct (map jid (jobs (snd (edit e j req s))))"
  using edit_unchanged_or_POST [of e j req s] by (auto simp: put_job_distinct)

lemma run_snoc: "run (ops @ [x]) s = step (run ops s) x"
  by (simp add: run_def)

lemma edits_snoc: "edits i (efs @ [(e, f)]) = edits i efs @ [Edit e i f]"
  by (simp add: edits_def)

lemma run_edits_inv:
  "get_post i (posts s) \<noteq> None \<Longrightarrow> distinct (map jid (jobs s)) \<Longrightarrow>
   get_post i (posts (run (edits i efs) s)) \<noteq> None \<and> distinct (map jid (jobs (run (edits i efs) s)))"
proof (induction efs rule: rev_induct)
  case Nil
  then show ?case by (simp add: run_def edits_def)
next
  case (snoc x efs)
  obtain e f where x: "x = (e, f)" by (cases x)
  show ?case
    using snoc by (simp add: x edits_snoc run_snoc edit_keeps_post edit_keeps_distinct_jobs)
qed

lemma old_image_edited:
  "old_image (edited f q) = (case f_image f of None \<Rightarrow> old_image q | Some n \<Rightarrow> n)"
  by (simp add: old_image_def edited_def split: option.splits)

lemma image_names_mem:
  "(e, f) \<in> set efs \<Longrightarrow> f_image f = Some n \<Longrightarrow> n \<in> set (image_names p efs)"
  by (force simp: image_names_def)

lemma edit_POST_row:
  assumes "get_post i (posts s) = Some p"
    and "f_image f = None \<or> \<not> (truthy (image_filename p) \<and> old_image p \<in> set (files s) \<and> os_remove_fails e (old_image p))"
  shows "get_post i (posts (snd (edit e i (POST f) s))) = Some (edited f p)"
proof -
  have "post_id (edited f p) = i"
    using get_post_Some_id [OF assms(1)] by (simp add: edited_def)
  then show ?thesis
    using edit_POST [OF assms] get_post_update_post [of "edited f p" "posts s"] assms(1)
    by simp
qed

text \<open>
  Re-registration in the application. Every edit of an existing post by \<^verbatim>\<open>app.py\<close> calls
  \<^verbatim>\<open>add_job\<close> under the task id of the post, with the form's time, whether or not the time
  changed; when the registration is accepted, exactly one entry has that task id and it is
  the new one. After any number of edits of the post, exactly one entry has the task id, at
  the time of the last accepted registration. Only the edits that replace an image need
  \<^verbatim>\<open>os.remove\<close> to work, on the images involved.
\<close>

theorem edit_reregisters:
  assumes post: "get_post i (posts s) = Some p"
    and jobs: "distinct (map jid (jobs s))"
    and files: "\<forall>(e, f) \<in> set efs. f_image f \<noteq> None \<longrightarrow>
                  (\<forall>n \<in> set (image_names p efs). \<not> os_remove_fails e n)"
  shows "(\<forall>(e, f) \<in> set efs.
            fst (edit e i (POST f) s) = Inr Redirect_index \<and>
            trace (snd (edit e i (POST f) s)) =
              trace s @ edit_image_trace f p s
              @ [Commit, AddJob (job_id i) (form_time f) i,
                 Log (if add_job_fails e (job_id i) then ERROR else INFO) ''Edit''] \<and>
            (\<not> add_job_fails e (job_id i) \<longrightarrow>
               jobs_of i (snd (edit e i (POST f) s)) =
                 [\<lparr>jid = job_id i, run_date = form_time f, args = i\<rparr>])) \<and>
         (accepted i efs \<noteq> [] \<longrightarrow>
            jobs_of i (run (edits i efs) s) =
              [\<lparr>jid = job_id i, run_date = form_time (snd (last (accepted i efs))), args = i\<rparr>])"
proof -
  let ?N = "set (image_names p efs)"
  have pre: "f_image f = None \<or> \<not> (truthy (image_filename q) \<and> old_image q \<in> set (files t) \<and>
               os_remove_fails e (old_image q))"
    if "(e, f) \<in> set efs" and "old_image q \<in> ?N" for e f q t
    using files that by auto
  have p0: "old_image p \<in> ?N" by (simp add: image_names_def)
  have single: "fst (edit e i (POST f) t) = Inr Redirect_index \<and>
      jobs (snd (edit e i (POST f) t)) =
        (if add_job_fails e (job_id i) then jobs t
         else put_job \<lparr>jid = job_id i, run_date = form_time f, args = i\<rparr> (jobs t)) \<and>
      get_post i (posts (snd (edit e i (POST f) t))) = Some (edited f q) \<and>
      old_image (edited f q) \<in> ?N"
    if q: "get_post i (posts t) = Some q" and qn: "old_image q \<in> ?N"
      and mem: "(e, f) \<in> set efs" for e f t q
  proof -
    note pr = pre [OF mem qn, of t]
    have "old_image (edited f q) \<in> ?N"
      using qn image_names_mem [OF mem] by (cases "f_image f") (simp_all add: old_image_edited)
    then show ?thesis
      using edit_POST [OF q pr] edit_POST_row [OF q pr] by simp
  qed
  have one: "filter (\<lambda>x. jid x = job_id i)
               (put_job \<lparr>jid = job_id i, run_date = d, args = i\<rparr> js) =
             [\<lparr>jid = job_id i, run_date = d, args = i\<rparr>]"
    if "distinct (map jid js)" for d js
    using put_job_filter [OF that, of "\<lparr>jid = job_id i, run_date = d, args = i\<rparr>"] by simp
  have first: "\<forall>(e, f) \<in> set efs.
            fst (edit e i (POST f) s) = Inr Redirect_index \<and>
            trace (snd (edit e i (POST f) s)) =
              trace s @ edit_image_trace f p s
              @ [Commit, AddJob (job_id i) (form_time f) i,
                 Log (if add_job_fails e (job_id i) then ERROR else INFO) ''Edit''] \<and>
            (\<not> add_job_fails e (job_id i) \<longrightarrow>
               jobs_of i (snd (edit e i (POST f) s)) =
                 [\<lparr>jid = job_id i, run_date = form_time f, args = i\<rparr>])"
  proof (intro ballI, clarify)
    fix e f assume mem: "(e, f) \<in> set efs"
    have ep: "fst (edit e i (POST f) s) = Inr Redirect_index \<and>
      trace (snd (edit e i (POST f) s)) =
              trace s @ edit_image_trace f p s
              @ [Commit, AddJob (job_id i) (form_time f) i,
                 Log (if add_job_fails e (job_id i) then ERROR else INFO) ''Edit'']"
      using edit_POST [OF post pre [OF mem p0, of s]] by simp
    have "jobs_of i (snd (edit e i (POST f) s)) =
            [\<lparr>jid = job_id i, run_date = form_time f, args = i\<rparr>]"
      if "\<not> add_job_fails e (job_id i)"
      using single [OF post p0 mem] one [OF jobs] that by (simp add: jobs_of_def)
    then show "fst (edit e i (POST f) s) = Inr Redirect_index \<and>
            trace (snd (edit e i (POST f) s)) =
              trace s @ edit_image_trace f p s
              @ [Commit, AddJob (job_id i) (form_time f) i,
                 Log (if add_job_fails e (job_id i) then ERROR else INFO) ''Edit''] \<and>
            (\<not> add_job_fails e (job_id i) \<longrightarrow>
               jobs_of i (snd (edit e i (POST f) s)) =
                 [\<lparr>jid = job_id i, run_date = form_time f, args = i\<rparr>])"
      using ep by blast
  qed
  have second: "(\<exists>q. get_post i (posts (run (edits i efs') s)) = Some q \<and> old_image q \<in> ?N) \<and>
      distinct (map jid (jobs (run (edits i efs') s))) \<and>
      (accepted i efs' \<noteq> [] \<longrightarrow>
            jobs_of i (run (edits i efs') s) =
              [\<lparr>jid = job_id i, run_date = form_time (snd (last (accepted i efs'))), args = i\<rparr>])"
    if "set efs' \<subseteq> set efs" for efs'
    using that
  proof (induction efs' rule: rev_induct)
    case Nil
    then show ?case using post p0 jobs by (simp add: accepted_def edits_def run_def)
  next
    case (snoc x efs')
    obtain e f where x: "x = (e, f)" by (cases x)
    have mem: "(e, f) \<in> set efs" using snoc.prems x by auto
    have sub: "set efs' \<subseteq> set efs" using snoc.prems by auto
    let ?t = "run (edits i efs') s"
    obtain q where q: "get_post i (posts ?t) = Some q" "old_image q \<in> ?N"
      using snoc.IH [OF sub] by blast
    have dj: "distinct (map jid (jobs ?t))" using snoc.IH [OF sub] by blast
    have st: "run (edits i (efs' @ [x])) s = snd (edit e i (POST f) ?t)"
      by (simp add: x edits_snoc run_snoc)
    note sg = single [OF q mem]
    have A: "\<exists>q. get_post i (posts (run (edits i (efs' @ [x])) s)) = Some q \<and> old_image q \<in> ?N"
      using sg by (auto simp: st)
    have B: "distinct (map jid (jobs (run (edits i (efs' @ [x])) s)))"
      using dj by (simp add: st edit_keeps_distinct_jobs)
    have C: "accepted i (efs' @ [x]) \<noteq> [] \<longrightarrow>
            jobs_of i (run (edits i (efs' @ [x])) s) =
              [\<lparr>jid = job_id i, run_date = form_time (snd (last (accepted i (efs' @ [x])))),
                args = i\<rparr>]"
    proof (cases "add_job_fails e (job_id i)")
      case True
      then have "accepted i (efs' @ [x]) = accepted i efs'"
        by (simp add: accepted_def x)
      moreover have "jobs_of i (run (edits i (efs' @ [x])) s) = jobs_of i ?t"
        using sg True by (simp add: st jobs_of_def)
      ultimately show ?thesis using snoc.IH [OF sub] by simp
    next
      case False
      then have "last (accepted i (efs' @ [x])) = (e, f)"
        by (simp add: accepted_def x)
      moreover have "jobs_of i (run (edits i (efs' @ [x])) s) =
          [\<lparr>jid = job_id i, run_date = form_time f, args = i\<rparr>]"
        using sg False one [OF dj] by (simp add: st jobs_of_def)
      ultimately show ?thesis by simp
    qed
    show ?case using A B C by blast
  qed
  show ?thesis using first second [of efs] by blast
qed

theorem edit_reregisters_witness:
  "get_post 1 (posts state_AB) = Some post_A \<and> distinct (map jid (jobs state_AB)) \<and>
   os_remove_fails flaky_env ''b.png'' \<and>
   accepted 1 [(ok_env, form_C), (flaky_env, form_D), (rejecting_env, form_C)] =
     [(ok_env, form_C), (flaky_env, form_D)] \<and>
   jobs_of 1 (snd (edit flaky_env 1 (POST form_D) state_AB)) =
     [\<lparr>jid = job_id 1, run_date = form_time form_D, args = 1\<rparr>] \<and>
   jobs_of 1 (run (edits 1 [(ok_env, form_C), (flaky_env, form_D), (rejecting_env, form_C)]) state_AB) =
     [\<lparr>jid = job_id 1, run_date = form_time form_D, args = 1\<rparr>]"
proof -
  have a: "get_post 1 (posts state_AB) = Some post_A"
    by (simp add: state_AB_def post_A_def get_post_def)
  have b: "distinct (map jid (jobs state_AB))"
    by (simp add: state_AB_def)
  have c: "\<forall>(e, f) \<in> set [(ok_env, form_C), (flaky_env, form_D), (rejecting_env, form_C)].
             f_image f \<noteq> None \<longrightarrow>
             (\<forall>n \<in> set (image_names post_A
                 [(ok_env, form_C), (flaky_env, form_D), (rejecting_env, form_C)]).
                \<not> os_remove_fails e n)"
    by (simp add: ok_env_def rejecting_env_def form_D_def)
  have d: "accepted 1 [(ok_env, form_C), (flaky_env, form_D), (rejecting_env, form_C)] =
             [(ok_env, form_C), (flaky_env, form_D)]"
    by (simp add: accepted_def ok_env_def rejecting_env_def flaky_env_def)
  have e: "\<not> add_job_fails flaky_env (job_id 1)" "os_remove_fails flaky_env ''b.png''"
    by (simp_all add: flaky_env_def)
  note t = edit_reregisters [OF a b c]
  show ?thesis
    using a b d e t by simp
qed

text \<open>The draft's \<^verbatim>\<open>edit\<close> never touches the job store.\<close>

lemma edit_tmp_keeps_jobs: "jobs (snd (edit_tmp i req s)) = jobs s"
  by (simp add: edit_tmp_def Let_def split: option.splits request.splits prod.splits)

text \<open>
  C5. Every edit is to re-register the post's task under the task id derived from the post
  id, so that one task is left at the latest time. The draft's \<^verbatim>\<open>edit\<close> does not: on the
  post created through its own \<^verbatim>\<open>schedule\<close> (whose task id carries the timestamp) it
  commits the new time and leaves the job store as it was, the task still at the old time,
  where \<^verbatim>\<open>edit\<close> of \<^verbatim>\<open>app.py\<close> on the same post leaves the one task at the new time.
\<close>

theorem draft_edit_keeps_stale_job:
  "jobs draft_created =
     [\<lparr>jid = ''post_1_1699980240'',
       run_date = \<lparr>aware_wall = 1700000040, utcoffset = 19800\<rparr>, args = 1\<rparr>] \<and>
   fst (edit_tmp 1 (POST form_second) draft_created) = Inr Redirect_index \<and>
   map scheduled_time (posts (snd (edit_tmp 1 (POST form_second) draft_created))) =
     [\<lparr>wall = 1700003640, tzinfo = Some 19800\<rparr>] \<and>
   jobs (snd (edit_tmp 1 (POST form_second) draft_created)) = jobs draft_created \<and>
   trace (snd (edit_tmp 1 (POST form_second) draft_created)) = trace draft_created @ [Commit] \<and>
   jobs (snd (edit ok_env 1 (POST form_second) app_created)) =
     [\<lparr>jid = ''post_1'',
       run_date = \<lparr>aware_wall = 1700003640, utcoffset = 19800\<rparr>, args = 1\<rparr>]"
proof -
  have a: "fst (edit_tmp 1 (POST form_second) draft_created) = Inr Redirect_index \<and>
   map scheduled_time (posts (snd (edit_tmp 1 (POST form_second) draft_created))) =
     [\<lparr>wall = 1700003640, tzinfo = Some 19800\<rparr>] \<and>
   jobs (snd (edit_tmp 1 (POST form_second) draft_created)) = jobs draft_created \<and>
   trace (snd (edit_tmp 1 (POST form_second) draft_created)) = trace draft_created @ [Commit]"
    by (simp add: draft_created_eq edit_tmp_def get_post_def form_second_def update_post_def
          IST_def Let_def)
  have b: "jobs (snd (edit ok_env 1 (POST form_second) app_created)) =
     [\<lparr>jid = ''post_1'',
       run_date = \<lparr>aware_wall = 1700003640, utcoffset = 19800\<rparr>, args = 1\<rparr>]"
    using job_id_first
    by (simp add: app_created_eq edit_def edit_commit_def get_post_def form_second_def
          update_post_def IST_def Let_def try_add_job_def add_job_def put_job_def find_job_def
          job_for_def normalize_time_def ok_env_def)
  show ?thesis using a b by (simp add: draft_created_eq)
qed

section \<open>Task ids are injective\<close>

text \<open>Distinct post ids have distinct task ids: the decimal rendering of an integer
  determines it.\<close>

lemma digit_char_cases:
  "d < 10 \<Longrightarrow> d = 0 \<or> d = 1 \<or> d = 2 \<or> d = 3 \<or> d = 4 \<or> d = 5 \<or> d = 6 \<or> d = 7 \<or> d = 8 \<or> d = (9::nat)"
  by arith

lemma digit_char_values:
  "digit_char 0 = CHR ''0''" "digit_char 1 = CHR ''1''" "digit_char 2 = CHR ''2''"
  "digit_char 3 = CHR ''3''" "digit_char 4 = CHR ''4''" "digit_char 5 = CHR ''5''"
  "digit_char 6 = CHR ''6''" "digit_char 7 = CHR ''7''" "digit_char 8 = CHR ''8''"
  "digit_char 9 = CHR ''9''" "digit_char (Suc 0) = CHR ''1''"
  by (simp_all add: digit_char_def)

lemma digit_char_code:
  assumes "d < 10"
  shows "of_char (digit_char d) = 48 + d"
  using digit_char_cases [OF assms]
  by (elim disjE) (simp_all add: digit_char_values)

lemma digit_char_inj:
  assumes "a < 10" and "b < 10" and "digit_char a = digit_char b"
  shows "a = b"
proof -
  have "48 + a = (of_char (digit_char a) :: nat)"
    using digit_char_code [OF assms(1)] by simp
  also have "\<dots> = 48 + b"
    using digit_char_code [OF assms(2)] assms(3) by simp
  finally show ?thesis by simp
qed

lemma digit_char_not_minus:
  assumes "d < 10"
  shows "digit_char d \<noteq> CHR ''-''"
proof
  assume "digit_char d = CHR ''-''"
  then have "(of_char (digit_char d) :: nat) = 45" by simp
  then show False using digit_char_code [OF assms] by simp
qed

lemma str_nat_nonempty: "str_nat n \<noteq> []"
  by (subst str_nat.simps) simp

lemma str_nat_no_minus: "CHR ''-'' \<notin> set (str_nat n)"
proof (induction n rule: str_nat.induct)
  case (1 n)
  show ?case
  proof (cases "n < 10")
    case True
    then show ?thesis
      using digit_char_not_minus [of n] by (subst str_nat.simps) auto
  next
    case False
    then show ?thesis
      using 1 digit_char_not_minus [of "n mod 10"] by (subst str_nat.simps) auto
  qed
qed

lemma str_nat_inj: "str_nat a = str_nat b \<Longrightarrow> a = b"
proof (induction a arbitrary: b rule: str_nat.induct)
  case (1 a)
  show ?case
  proof (cases "a < 10")
    case a: True
    show ?thesis
    proof (cases "b < 10")
      case True
      then show ?thesis
        using a "1.prems" digit_char_inj [of a b]
        by (simp add: str_nat.simps [of a] str_nat.simps [of b])
    next
      case False
      then show ?thesis
        using a "1.prems" str_nat_nonempty [of "b div 10"]
        by (simp add: str_nat.simps [of a] str_nat.simps [of b])
    qed
  next
    case a: False
    show ?thesis
    proof (cases "b < 10")
      case True
      then show ?thesis
        using a "1.prems" str_nat_nonempty [of "a div 10"]
        by (simp add: str_nat.simps [of a] str_nat.simps [of b])
    next
      case False
      then have eq: "str_nat (a div 10) = str_nat (b div 10)"
            "digit_char (a mod 10) = digit_char (b mod 10)"
        using a "1.prems" by (simp_all add: str_nat.simps [of a] str_nat.simps [of b])
      have "a div 10 = b div 10" using "1.IH" [OF a eq(1)] .
      moreover have "a mod 10 = b mod 10"
        using digit_char_inj [OF _ _ eq(2)] by simp
      ultimately show ?thesis by (metis div_mult_mod_eq)
    qed
  qed
qed

lemma str_int_inj: "str_int a = str_int b \<Longrightarrow> a = b"
proof -
  assume eq: "str_int a = str_int b"
  have neg: "CHR ''-'' # xs \<noteq> str_nat m" "str_nat m \<noteq> CHR ''-'' # xs" for m xs
    using str_nat_no_minus [of m] by (metis list.set_intros(1))+
  show ?thesis
  proof (cases "a < 0")
    case a: True
    show ?thesis
    proof (cases "b < 0")
      case True
      then have "nat (- a) = nat (- b)" using a eq str_nat_inj by (simp add: str_int_def)
      then show ?thesis using a True by simp
    next
      case False
      then show ?thesis using a eq neg by (simp add: str_int_def)
    qed
  next
    case a: False
    show ?thesis
    proof (cases "b < 0")
      case True
      then show ?thesis using a eq neg by (simp add: str_int_def)
    next
      case False
      then have "nat a = nat b" using a eq str_nat_inj by (simp add: str_int_def)
      then show ?thesis using a False by simp
    qed
  qed
qed

lemma job_id_inj [simp]: "job_id a = job_id b \<longleftrightarrow> a = b"
  by (auto simp: job_id_def dest: str_int_inj)

section \<open>Status is monotonic\<close>

lemma get_post_set_status_posted:
  "get_post i ps = Some p \<Longrightarrow> status p = v \<Longrightarrow> get_post i (set_status j v ps) = Some p"
  by (induction ps) (auto simp: get_post_def set_status_def)

lemma get_post_append_old:
  "get_post i ps = Some p \<Longrightarrow> get_post i (ps @ qs) = Some p"
  by (induction ps) (auto simp: get_post_def)

lemma get_post_update_post_other:
  "post_id q \<noteq> i \<Longrightarrow> get_post i (update_post q ps) = get_post i ps"
  by (induction ps) (auto simp: get_post_def update_post_def)

lemma get_post_filter_neq:
  "j \<noteq> i \<Longrightarrow> get_post i (filter (\<lambda>q. post_id q \<noteq> j) ps) = get_post i ps"
  by (induction ps) (auto simp: get_post_def)

lemma publish_post_keeps_posted:
  assumes "get_post i (posts s) = Some p" and "status p = ''posted''"
  shows "get_post i (posts (publish_post j s)) = Some p"
proof (cases "get_post j (posts s)")
  case None
  then show ?thesis using assms by (simp add: publish_post_def)
next
  case (Some q)
  then show ?thesis
    using assms by (simp add: publish_post_def get_post_set_status_posted)
qed

lemma startup_post_keeps_posted:
  assumes "get_post i (posts s) = Some p" and "status p = ''posted''"
  shows "get_post i (posts (startup_post e s q)) = Some p"
  using assms publish_post_keeps_posted [of i "s\<lparr>trace := trace s @ [Log INFO ''SchedulerSetup'']\<rparr>" p]
  by (simp add: startup_post_def Let_def)

lemma foldl_startup_post_keeps_posted:
  "get_post i (posts s) = Some p \<Longrightarrow> status p = ''posted'' \<Longrightarrow>
   get_post i (posts (foldl (startup_post e) s qs)) = Some p"
  by (induction qs arbitrary: s) (simp_all add: startup_post_keeps_posted)

lemma startup_keeps_posted:
  "get_post i (posts s) = Some p \<Longrightarrow> status p = ''posted'' \<Longrightarrow>
   get_post i (posts (startup e s)) = Some p"
  by (simp add: startup_def foldl_startup_post_keeps_posted)

lemma fire_keeps_posted:
  assumes "get_post i (posts s) = Some p" and "status p = ''posted''"
  shows "get_post i (posts (fire k t s)) = Some p"
  using assms publish_post_keeps_posted [of i "s\<lparr>jobs := filter (\<lambda>x. jid x \<noteq> k) (jobs s)\<rparr>" p]
  by (simp add: fire_def split: option.splits)

lemma edit_keeps_posted:
  assumes "get_post i (posts s) = Some p" and "status p = ''posted''"
  shows "status_of i (snd (edit e j req s)) = Some ''posted''"
proof -
  have old: "status_of i s = Some ''posted''" using assms by (simp add: status_of_def)
  from edit_unchanged_or_POST [of e j req s] show ?thesis
  proof (elim disjE exE conjE)
    assume "posts (snd (edit e j req s)) = posts s"
    then show ?thesis using old by (simp add: status_of_def)
  next
    fix q f
    assume q: "get_post j (posts s) = Some q"
      and ps: "posts (snd (edit e j req s)) = update_post (edited f q) (posts s)"
    have idq: "post_id (edited f q) = j" using get_post_Some_id [OF q] by (simp add: edited_def)
    show ?thesis
    proof (cases "j = i")
      case True
      then have "q = p" using q assms(1) by simp
      moreover have "get_post i (update_post (edited f q) (posts s)) = Some (edited f q)"
        using get_post_update_post [of "edited f q" "posts s"] idq True q by simp
      ultimately show ?thesis using assms(2) ps by (simp add: status_of_def edited_def)
    next
      case False
      then show ?thesis
        using old ps idq get_post_update_post_other [of "edited f q" i "posts s"]
        by (simp add: status_of_def)
    qed
  qed
qed

lemma step_keeps_posted:
  assumes "status_of i s = Some ''posted''" and "\<not> deletes i x"
  shows "status_of i (step s x) = Some ''posted''"
proof -
  obtain p where p: "get_post i (posts s) = Some p" "status p = ''posted''"
    using assms(1) by (auto simp: status_of_def)
  show ?thesis
  proof (cases x)
    case (Create e f)
    then show ?thesis
      using p schedule_POST [of e f s] by (simp add: status_of_def get_post_append_old)
  next
    case (Edit e j f)
    then show ?thesis using edit_keeps_posted [OF p] by simp
  next
    case (Delete e j)
    then have "j \<noteq> i" using assms(2) by simp
    then show ?thesis
      using Delete p by (simp add: status_of_def delete_posts get_post_filter_neq)
  next
    case (Startup e)
    then show ?thesis using startup_keeps_posted [OF p] p(2) by (simp add: status_of_def)
  next
    case (Fire k t)
    then show ?thesis using fire_keeps_posted [OF p] p(2) by (simp add: status_of_def)
  qed
qed

lemma step_delete_status:
  "status_of i (step s (Delete e i)) = None"
  by (simp add: status_of_def delete_posts get_post_filter_other)

text \<open>
  C2. Once the post with id \<open>i\<close> has status "posted", no operation sets it back: after any
  single operation the post is still "posted" or it is gone (deleted), and after any
  sequence of operations that does not delete the post it is still there with status
  "posted".
\<close>

theorem status_monotonic:
  assumes "status_of i s = Some ''posted''"
  shows "(\<forall>x. status_of i (step s x) = Some ''posted'' \<or> status_of i (step s x) = None) \<and>
         ((\<forall>x \<in> set ops. \<not> deletes i x) \<longrightarrow> status_of i (run ops s) = Some ''posted'')"
proof -
  have one: "status_of i (step s x) = Some ''posted'' \<or> status_of i (step s x) = None" for x
  proof (cases "deletes i x")
    case True
    then obtain e where "x = Delete e i" by (cases x) auto
    then show ?thesis using step_delete_status [of i s e] by simp
  next
    case False
    then show ?thesis using step_keeps_posted [OF assms] by simp
  qed
  have many: "(\<forall>x \<in> set ops. \<not> deletes i x) \<longrightarrow> status_of i (run ops s) = Some ''posted''"
  proof (induction ops rule: rev_induct)
    case Nil
    then show ?case using assms by (simp add: run_def)
  next
    case (snoc x ops)
    then show ?case by (auto simp: run_snoc step_keeps_posted)
  qed
  show ?thesis using one many by blast
qed

theorem status_monotonic_witness:
  "status_of 2 state_AB = Some ''posted'' \<and>
   status_of 2 (step state_AB (Delete ok_env 2)) = None \<and>
   status_of 2 (run [Edit ok_env 2 form_C, Startup ok_env, Fire ''post_2'' 1000000,
                     Create ok_env form_past, Delete ok_env 1, Fire ''post_3'' 1000000] state_AB)
     = Some ''posted''"
proof -
  have a: "status_of 2 state_AB = Some ''posted''"
    by (simp add: status_of_def state_AB_def post_A_def post_B_def get_post_def)
  have b: "\<forall>x \<in> set [Edit ok_env 2 form_C, Startup ok_env, Fire ''post_2'' 1000000,
                     Create ok_env form_past, Delete ok_env 1, Fire ''post_3'' 1000000].
             \<not> deletes 2 x"
    by simp
  have c: "status_of 2 (step state_AB (Delete ok_env 2)) = None"
    by (rule step_delete_status)
  show ?thesis
    using a b c status_monotonic [OF a] by blast
qed

section \<open>Startup reconciliation\<close>

lemma find_job_append1:
  "find_job k (js @ [j]) =
     (case find_job k js of Some x \<Rightarrow> Some x | None \<Rightarrow> if jid j = k then Some j else None)"
  by (induction js) (auto simp: find_job_def)

lemma find_job_replace:
  "jid j = a \<Longrightarrow>
   find_job k (map (\<lambda>x. if jid x = a then j else x) js) =
     (if k = a then (if find_job a js = None then None else Some j) else find_job k js)"
  by (induction js) (auto simp: find_job_def)

lemma find_job_put_job:
  "find_job k (put_job j js) = (if jid j = k then Some j else find_job k js)"
proof (cases "find_job (jid j) js = None")
  case True
  then show ?thesis
    by (auto simp: put_job_def find_job_append1 split: option.splits)
next
  case False
  then show ?thesis
    using find_job_replace [of j "jid j" k js] by (auto simp: put_job_def)
qed

lemma find_job_foldl_put_other:
  "(\<forall>q \<in> set qs. jid (J q) \<noteq> k) \<Longrightarrow>
   find_job k (foldl (\<lambda>js q. put_job (J q) js) js0 qs) = find_job k js0"
  by (induction qs rule: rev_induct) (simp_all add: find_job_put_job)

lemma find_job_foldl_put_mem:
  "p \<in> set qs \<Longrightarrow> (\<forall>q \<in> set qs. jid (J q) = jid (J p) \<longrightarrow> q = p) \<Longrightarrow>
   find_job (jid (J p)) (foldl (\<lambda>js q. put_job (J q) js) js0 qs) = Some (J p)"
proof (induction qs rule: rev_induct)
  case Nil
  then show ?case by simp
next
  case (snoc x qs)
  show ?case
  proof (cases "jid (J x) = jid (J p)")
    case True
    then have "x = p" using snoc.prems(2) by simp
    then show ?thesis by (simp add: find_job_put_job)
  next
    case False
    then have "p \<in> set qs" using snoc.prems(1) by auto
    then show ?thesis using snoc False by (simp add: find_job_put_job)
  qed
qed

lemma get_post_distinct:
  "distinct (map post_id ps) \<Longrightarrow> p \<in> set ps \<Longrightarrow> get_post (post_id p) ps = Some p"
  by (induction ps) (auto simp: get_post_def)

lemma startup_post_due:
  assumes "due e q" and "get_post (post_id q) (posts s) = Some r" and "status r = ''scheduled''"
  shows "posts (startup_post e s q) = set_status (post_id q) ''posted'' (posts s) \<and>
         jobs (startup_post e s q) = jobs s \<and> files (startup_post e s q) = files s \<and>
         trace (startup_post e s q) = trace s @ reconcile_trace e q"
  using assms get_post_Some_id [OF assms(2)]
  by (simp add: startup_post_def publish_post_def due_def reconcile_trace_def Let_def)

lemma startup_post_not_due:
  assumes "\<not> due e q"
  shows "posts (startup_post e s q) = posts s \<and>
         jobs (startup_post e s q) =
           (if add_job_fails e (job_id (post_id q)) then jobs s else put_job (post_job q) (jobs s)) \<and>
         files (startup_post e s q) = files s \<and>
         trace (startup_post e s q) = trace s @ reconcile_trace e q"
  using assms
  by (simp add: startup_post_def due_def reconcile_trace_def Let_def try_add_job_jobs
        try_add_job_trace post_job_def)

lemma startup_post_cases:
  assumes "get_post (post_id q) (posts s) = Some r" and "status r = ''scheduled''"
  shows "posts (startup_post e s q) =
           (if due e q then set_status (post_id q) ''posted'' (posts s) else posts s) \<and>
         jobs (startup_post e s q) =
           (if \<not> due e q \<and> \<not> add_job_fails e (job_id (post_id q))
            then put_job (post_job q) (jobs s) else jobs s) \<and>
         files (startup_post e s q) = files s \<and>
         trace (startup_post e s q) = trace s @ reconcile_trace e q"
proof (cases "due e q")
  case True
  then show ?thesis using startup_post_due [OF True assms] by simp
next
  case False
  then show ?thesis using startup_post_not_due [OF False, of s] by simp
qed

lemma mark_due_Cons:
  "map (mark_due e qs) (if due e q then set_status (post_id q) ''posted'' ps else ps) =
   map (mark_due e (q # qs)) ps"
  by (auto simp: mark_due_def set_status_def)

lemma startup_loop_hyp:
  assumes "post_id q \<notin> post_id ` set qs"
    and "\<forall>x \<in> set (q # qs). \<exists>r. get_post (post_id x) (posts s) = Some r \<and> status r = ''scheduled''"
    and "posts s' = (if due e q then set_status (post_id q) ''posted'' (posts s) else posts s)"
  shows "\<forall>x \<in> set qs. \<exists>r. get_post (post_id x) (posts s') = Some r \<and> status r = ''scheduled''"
proof
  fix x assume x: "x \<in> set qs"
  then have "post_id x \<noteq> post_id q" using assms(1) by (metis imageI)
  then have "get_post (post_id x) (posts s') = get_post (post_id x) (posts s)"
    using assms(3) by (simp add: get_post_set_status_other)
  then show "\<exists>r. get_post (post_id x) (posts s') = Some r \<and> status r = ''scheduled''"
    using assms(2) x by simp
qed

lemma startup_loop:
  assumes "distinct (map post_id qs)"
    and "\<forall>q \<in> set qs. \<exists>r. get_post (post_id q) (posts s) = Some r \<and> status r = ''scheduled''"
  shows "posts (foldl (startup_post e) s qs) = map (mark_due e qs) (posts s) \<and>
         jobs (foldl (startup_post e) s qs) =
           foldl (\<lambda>js q. put_job (post_job q) js) (jobs s)
             (filter (\<lambda>q. \<not> due e q \<and> \<not> add_job_fails e (job_id (post_id q))) qs) \<and>
         files (foldl (startup_post e) s qs) = files s \<and>
         trace (foldl (startup_post e) s qs) = trace s @ concat (map (reconcile_trace e) qs)"
  using assms
proof (induction qs arbitrary: s)
  case Nil
  show ?case by (simp add: mark_due_def)
next
  case (Cons q qs)
  obtain r where r: "get_post (post_id q) (posts s) = Some r" "status r = ''scheduled''"
    using Cons.prems(2) by auto
  have d: "distinct (map post_id qs)" and nq: "post_id q \<notin> post_id ` set qs"
    using Cons.prems(1) by auto
  let ?s1 = "startup_post e s q"
  note sp = startup_post_cases [OF r, of e]
  have p1: "posts ?s1 = (if due e q then set_status (post_id q) ''posted'' (posts s) else posts s)"
    using sp by blast
  have j1: "jobs ?s1 = (if \<not> due e q \<and> \<not> add_job_fails e (job_id (post_id q))
            then put_job (post_job q) (jobs s) else jobs s)"
    using sp by blast
  have f1: "files ?s1 = files s" using sp by blast
  have t1: "trace ?s1 = trace s @ reconcile_trace e q" using sp by blast
  have H: "\<forall>x \<in> set qs. \<exists>r. get_post (post_id x) (posts ?s1) = Some r \<and> status r = ''scheduled''"
    by (rule startup_loop_hyp [OF nq Cons.prems(2) p1])
  note IH = Cons.IH [OF d H]
  have "posts (foldl (startup_post e) s (q # qs)) = map (mark_due e qs) (posts ?s1)"
    using IH by simp
  then have P: "posts (foldl (startup_post e) s (q # qs)) = map (mark_due e (q # qs)) (posts s)"
    by (simp only: p1 mark_due_Cons)
  have "jobs (foldl (startup_post e) s (q # qs)) =
          foldl (\<lambda>js q. put_job (post_job q) js) (jobs ?s1)
             (filter (\<lambda>q. \<not> due e q \<and> \<not> add_job_fails e (job_id (post_id q))) qs)"
    using IH by simp
  then have J: "jobs (foldl (startup_post e) s (q # qs)) =
          foldl (\<lambda>js q. put_job (post_job q) js) (jobs s)
             (filter (\<lambda>q. \<not> due e q \<and> \<not> add_job_fails e (job_id (post_id q))) (q # qs))"
    by (simp add: j1)
  have F: "files (foldl (startup_post e) s (q # qs)) = files s"
    using IH f1 by simp
  have T: "trace (foldl (startup_post e) s (q # qs)) =
             trace s @ concat (map (reconcile_trace e) (q # qs))"
    using IH t1 by simp
  show ?case using P J F T by blast
qed

lemma mark_due_scheduled:
  assumes "distinct (map post_id ps)"
  shows "map (mark_due e (filter (\<lambda>p. status p = ''scheduled'') ps)) ps =
         map (\<lambda>p. if status p = ''scheduled'' \<and> due e p then p\<lparr>status := ''posted''\<rparr> else p) ps"
proof (rule map_cong [OF refl])
  fix r assume r: "r \<in> set ps"
  have inj: "inj_on post_id (set ps)" using assms by (simp add: distinct_map)
  have "post_id r \<in> post_id ` set (filter (due e) (filter (\<lambda>p. status p = ''scheduled'') ps))
        \<longleftrightarrow> status r = ''scheduled'' \<and> due e r"
  proof
    assume "post_id r \<in> post_id ` set (filter (due e) (filter (\<lambda>p. status p = ''scheduled'') ps))"
    then obtain q where q: "q \<in> set ps" "status q = ''scheduled''" "due e q" "post_id r = post_id q"
      by auto
    then have "q = r" using inj r by (simp add: inj_on_def)
    then show "status r = ''scheduled'' \<and> due e r" using q by simp
  next
    assume "status r = ''scheduled'' \<and> due e r"
    then show "post_id r \<in> post_id ` set (filter (due e) (filter (\<lambda>p. status p = ''scheduled'') ps))"
      using r by simp
  qed
  then show "mark_due e (filter (\<lambda>p. status p = ''scheduled'') ps) r =
        (if status r = ''scheduled'' \<and> due e r then r\<lparr>status := ''posted''\<rparr> else r)"
    by (simp only: mark_due_def)
qed

lemma startup_closed_form:
  assumes "distinct (map post_id (posts s))"
  shows "posts (startup e s) =
           map (\<lambda>p. if status p = ''scheduled'' \<and> due e p then p\<lparr>status := ''posted''\<rparr> else p)
             (posts s) \<and>
         jobs (startup e s) =
           foldl (\<lambda>js q. put_job (post_job q) js) (jobs s) (filter (registered e) (posts s)) \<and>
         files (startup e s) = files s \<and>
         trace (startup e s) =
           trace s @ Log INFO ''SchedulerSetup'' #
             concat (map (reconcile_trace e) (filter (\<lambda>p. status p = ''scheduled'') (posts s)))"
proof -
  let ?qs = "filter (\<lambda>p. status p = ''scheduled'') (posts s)"
  let ?s0 = "s\<lparr>trace := trace s @ [Log INFO ''SchedulerSetup'']\<rparr>"
  have d: "distinct (map post_id ?qs)"
    using assms by (rule distinct_map_filter)
  have H: "\<forall>q \<in> set ?qs. \<exists>r. get_post (post_id q) (posts ?s0) = Some r \<and> status r = ''scheduled''"
    using get_post_distinct [OF assms] by auto
  have fm: "registered e = (\<lambda>x. status x = ''scheduled'' \<and> \<not> due e x \<and>
              \<not> add_job_fails e (job_id (post_id x)))"
    by (rule ext) (simp add: registered_def)
  have st: "startup e s = foldl (startup_post e) ?s0 ?qs"
    by (simp add: startup_def)
  note L = startup_loop [OF d H, of e]
  have P: "posts (startup e s) = map (mark_due e ?qs) (posts s)"
    using L by (simp add: st)
  have J: "jobs (startup e s) =
           foldl (\<lambda>js q. put_job (post_job q) js) (jobs s) (filter (registered e) (posts s))"
    using L by (simp add: st fm)
  have F: "files (startup e s) = files s" using L by (simp add: st)
  have T: "trace (startup e s) = trace s @ Log INFO ''SchedulerSetup'' #
             concat (map (reconcile_trace e) ?qs)"
    using L by (simp add: st)
  show ?thesis
    using P J F T mark_due_scheduled [OF assms, of e] by simp
qed

text \<open>
  C4. On a table keyed by the post id, \<^verbatim>\<open>startup\<close> handles exactly the posts with status
  "scheduled", one after the other and each by itself: the trace is the startup log
  record followed, for each scheduled post in table order, by that post's own effects.
  A post whose normalised time (a naive time read as IST) is not after the clock is
  published at once (commit and notification, status "posted"); any other scheduled post
  gets a call of \<^verbatim>\<open>add_job\<close> under its task id at the normalised time, and the call's
  rejection is only logged. Afterwards the entry under the task id of a post is the one
  registered for it when the post was scheduled, not yet due and accepted, and is what it
  was before otherwise; every other row and the files are unchanged.
\<close>

theorem startup_reconciles:
  assumes "distinct (map post_id (posts s))"
  shows "posts (startup e s) =
           map (\<lambda>p. if status p = ''scheduled'' \<and> due e p then p\<lparr>status := ''posted''\<rparr> else p)
             (posts s) \<and>
         trace (startup e s) =
           trace s @ Log INFO ''SchedulerSetup'' #
             concat (map (reconcile_trace e) (filter (\<lambda>p. status p = ''scheduled'') (posts s))) \<and>
         files (startup e s) = files s \<and>
         (\<forall>p \<in> set (posts s).
            find_job (job_id (post_id p)) (jobs (startup e s)) =
              (if registered e p then Some (post_job p)
               else find_job (job_id (post_id p)) (jobs s)))"
proof -
  note cf = startup_closed_form [OF assms, of e]
  have inj: "inj_on post_id (set (posts s))" using assms by (simp add: distinct_map)
  have same: "q = p" if "q \<in> set (posts s)" "p \<in> set (posts s)"
      "jid (post_job q) = jid (post_job p)" for p q
    using that inj by (simp add: post_job_def inj_on_def)
  have J: "jobs (startup e s) =
           foldl (\<lambda>js q. put_job (post_job q) js) (jobs s) (filter (registered e) (posts s))"
    using cf by blast
  have fj: "find_job (job_id (post_id p)) (jobs (startup e s)) =
              (if registered e p then Some (post_job p)
               else find_job (job_id (post_id p)) (jobs s))" if p: "p \<in> set (posts s)" for p
  proof (cases "registered e p")
    case True
    have mem: "p \<in> set (filter (registered e) (posts s))" using p True by simp
    have uniq: "\<forall>q \<in> set (filter (registered e) (posts s)).
                  jid (post_job q) = jid (post_job p) \<longrightarrow> q = p"
      using same p by simp
    have "find_job (jid (post_job p)) (jobs (startup e s)) = Some (post_job p)"
      unfolding J by (rule find_job_foldl_put_mem [OF mem uniq])
    then show ?thesis using True by (simp add: post_job_def)
  next
    case False
    have other: "\<forall>q \<in> set (filter (registered e) (posts s)).
                   jid (post_job q) \<noteq> job_id (post_id p)"
    proof
      fix q assume q: "q \<in> set (filter (registered e) (posts s))"
      show "jid (post_job q) \<noteq> job_id (post_id p)"
      proof
        assume "jid (post_job q) = job_id (post_id p)"
        then have "jid (post_job q) = jid (post_job p)" by (simp add: post_job_def)
        then have "q = p" using same q p by simp
        then show False using q False by simp
      qed
    qed
    have "find_job (job_id (post_id p)) (jobs (startup e s)) = find_job (job_id (post_id p)) (jobs s)"
      unfolding J by (rule find_job_foldl_put_other [OF other])
    then show ?thesis using False by simp
  qed
  show ?thesis using cf fj by blast
qed

theorem startup_reconciles_witness:
  "distinct (map post_id (posts state_mix)) \<and>
   posts (startup picky_env state_mix) =
     [post_A\<lparr>status := ''posted''\<rparr>, post_B, post_E, post_F] \<and>
   trace (startup picky_env state_mix) =
     [Log INFO ''SchedulerSetup'',
      Log INFO ''SchedulerSetup'', Commit, Emit 1 ''posted'', Log INFO ''publish_post'',
      AddJob ''post_5'' \<lparr>aware_wall = 600000, utcoffset = 19800\<rparr> 5, Log ERROR ''SchedulerSetup'',
      AddJob ''post_6'' \<lparr>aware_wall = 700000, utcoffset = 0\<rparr> 6, Log INFO ''SchedulerSetup''] \<and>
   post_F \<in> set (posts state_mix) \<and>
   find_job (job_id 6) (jobs (startup picky_env state_mix)) =
     Some \<lparr>jid = ''post_6'', run_date = \<lparr>aware_wall = 700000, utcoffset = 0\<rparr>, args = 6\<rparr> \<and>
   post_E \<in> set (posts state_mix) \<and>
   find_job (job_id 5) (jobs (startup picky_env state_mix)) = None"
proof -
  have ids: "job_id 1 = ''post_1''" "job_id 5 = ''post_5''" "job_id 6 = ''post_6''"
    by code_simp+
  have d: "distinct (map post_id (posts state_mix))"
    by (simp add: state_mix_def post_A_def post_B_def post_E_def post_F_def)
  have du: "due picky_env post_A" "\<not> due picky_env post_E" "\<not> due picky_env post_F"
    by (simp_all add: due_def picky_env_def post_A_def post_E_def post_F_def normalize_time_def
          instant_def IST_def)
  have st: "status post_A = ''scheduled''" "status post_B = ''posted''"
      "status post_E = ''scheduled''" "status post_F = ''scheduled''"
      "post_id post_A = 1" "post_id post_E = 5" "post_id post_F = 6"
    by (simp_all add: post_A_def post_B_def post_E_def post_F_def)
  have rg: "registered picky_env post_F" "\<not> registered picky_env post_E"
    using du st ids by (simp_all add: registered_def picky_env_def)
  have pj: "post_job post_F =
      \<lparr>jid = ''post_6'', run_date = \<lparr>aware_wall = 700000, utcoffset = 0\<rparr>, args = 6\<rparr>"
    using ids by (simp add: post_job_def post_F_def normalize_time_def)
  have rt: "reconcile_trace picky_env post_A =
      [Log INFO ''SchedulerSetup'', Commit, Emit 1 ''posted'', Log INFO ''publish_post'']"
    "reconcile_trace picky_env post_E =
      [AddJob ''post_5'' \<lparr>aware_wall = 600000, utcoffset = 19800\<rparr> 5, Log ERROR ''SchedulerSetup'']"
    "reconcile_trace picky_env post_F =
      [AddJob ''post_6'' \<lparr>aware_wall = 700000, utcoffset = 0\<rparr> 6, Log INFO ''SchedulerSetup'']"
    using du st ids
    by (simp_all add: reconcile_trace_def)
       (simp_all add: picky_env_def post_E_def post_F_def normalize_time_def IST_def)
  have mem: "post_F \<in> set (posts state_mix)" "post_E \<in> set (posts state_mix)"
    by (simp_all add: state_mix_def)
  have ps: "posts state_mix = [post_A, post_B, post_E, post_F]" "jobs state_mix = []"
      "trace state_mix = []"
    by (simp_all add: state_mix_def)
  note t = startup_reconciles [OF d, of picky_env]
  have a: "posts (startup picky_env state_mix) =
     [post_A\<lparr>status := ''posted''\<rparr>, post_B, post_E, post_F]"
    using t by (simp add: ps st du)
  have b: "trace (startup picky_env state_mix) =
     [Log INFO ''SchedulerSetup'',
      Log INFO ''SchedulerSetup'', Commit, Emit 1 ''posted'', Log INFO ''publish_post'',
      AddJob ''post_5'' \<lparr>aware_wall = 600000, utcoffset = 19800\<rparr> 5, Log ERROR ''SchedulerSetup'',
      AddJob ''post_6'' \<lparr>aware_wall = 700000, utcoffset = 0\<rparr> 6, Log INFO ''SchedulerSetup'']"
    using t by (simp add: ps st rt)
  have c: "find_job (job_id 6) (jobs (startup picky_env state_mix)) =
     Some \<lparr>jid = ''post_6'', run_date = \<lparr>aware_wall = 700000, utcoffset = 0\<rparr>, args = 6\<rparr>"
    using t mem(1) rg(1) st pj by (metis)
  have e: "find_job (job_id 5) (jobs (startup picky_env state_mix)) = None"
    using t mem(2) rg(2) st ps(2) by (metis find_job_def find.simps(1))
  show ?thesis using d a b c e mem by blast
qed

section \<open>Posts and their scheduler entries\<close>

lemma wf_iff: "wf_state s \<longleftrightarrow> distinct (map post_id (posts s)) \<and> jobs_ok (jobs s)"
  by (auto simp: wf_state_def jobs_ok_def list_all_iff)

lemma set_put_job: "set (put_job j js) \<subseteq> insert j (set js)"
  by (auto simp: put_job_def)

lemma jobs_ok_put_job:
  "jobs_ok js \<Longrightarrow> jid j = job_id (args j) \<Longrightarrow> jobs_ok (put_job j js)"
  using set_put_job [of j js] by (auto simp: jobs_ok_def put_job_distinct)

lemma jobs_ok_filter: "jobs_ok js \<Longrightarrow> jobs_ok (filter P js)"
  by (simp add: jobs_ok_def distinct_map_filter)

lemma publish_post_posts:
  "posts (publish_post j s) =
     (if status_of j s = Some ''scheduled'' then set_status j ''posted'' (posts s) else posts s)"
proof (cases "get_post j (posts s)")
  case None
  then show ?thesis by (simp add: publish_post_def status_of_def)
next
  case (Some q)
  then show ?thesis
    using get_post_Some_id [OF Some] by (simp add: publish_post_def status_of_def)
qed

lemma publish_post_jobs [simp]: "jobs (publish_post j s) = jobs s"
  by (simp add: publish_post_def split: option.splits)

lemma map_post_id_set_status [simp]: "map post_id (set_status i v ps) = map post_id ps"
  by (simp add: set_status_def)

lemma publish_post_ids [simp]:
  "map post_id (posts (publish_post j s)) = map post_id (posts s)"
  by (simp add: publish_post_posts)

lemma startup_post_ids [simp]:
  "map post_id (posts (startup_post e s q)) = map post_id (posts s)"
  by (simp add: startup_post_def Let_def)

lemma startup_post_jobs:
  "jobs (startup_post e s q) = jobs s \<or> jobs (startup_post e s q) = put_job (post_job q) (jobs s)"
  by (simp add: startup_post_def Let_def try_add_job_jobs post_job_def)

lemma foldl_startup_post_wf:
  "distinct (map post_id (posts s)) \<and> jobs_ok (jobs s) \<Longrightarrow>
   distinct (map post_id (posts (foldl (startup_post e) s qs))) \<and>
   jobs_ok (jobs (foldl (startup_post e) s qs))"
proof (induction qs arbitrary: s)
  case Nil
  then show ?case by simp
next
  case (Cons q qs)
  have "jobs_ok (jobs (startup_post e s q))"
    using startup_post_jobs [of e s q] Cons.prems
    by (auto simp: jobs_ok_put_job post_job_def)
  then show ?case using Cons by simp
qed

lemma fire_cases:
  "(posts (fire k t s) = posts s \<and> jobs (fire k t s) = jobs s) \<or>
   (\<exists>j. find_job k (jobs s) = Some j \<and>
      jobs (fire k t s) = filter (\<lambda>x. jid x \<noteq> k) (jobs s) \<and>
      posts (fire k t s) =
        (if status_of (args j) s = Some ''scheduled''
         then set_status (args j) ''posted'' (posts s) else posts s))"
proof (cases "find_job k (jobs s)")
  case None
  then show ?thesis by (simp add: fire_def)
next
  case (Some j)
  show ?thesis
  proof (cases "instant (run_date j) \<le> t")
    case True
    have so: "status_of a (s\<lparr>jobs := js\<rparr>) = status_of a s" for a js
      by (simp add: status_of_def)
    have "fire k t s = publish_post (args j) (s\<lparr>jobs := filter (\<lambda>x. jid x \<noteq> k) (jobs s)\<rparr>)"
      using Some True by (simp add: fire_def)
    then have "jobs (fire k t s) = filter (\<lambda>x. jid x \<noteq> k) (jobs s) \<and>
      posts (fire k t s) =
        (if status_of (args j) s = Some ''scheduled''
         then set_status (args j) ''posted'' (posts s) else posts s)"
      by (simp add: publish_post_posts so)
    then show ?thesis using Some by blast
  next
    case False
    then show ?thesis using Some by (simp add: fire_def)
  qed
qed

lemma wf_step: "wf_state s \<Longrightarrow> wf_state (step s x)"
proof -
  assume w: "wf_state s"
  then have d: "distinct (map post_id (posts s))" and j: "jobs_ok (jobs s)"
    by (simp_all add: wf_iff)
  show ?thesis
  proof (cases x)
    case (Create e f)
    have "fresh_id (posts s) \<notin> post_id ` set (posts s)"
      using fresh_id_fresh [of "posts s"] by (simp add: get_post_None_iff)
    then have "distinct (map post_id (posts s @ [new_post f s]))"
      using d by (simp add: new_post_def)
    moreover have "jobs_ok (jobs (snd (schedule e (POST f) s)))"
      using j schedule_POST [of e f s] by (auto simp: jobs_ok_put_job)
    ultimately show ?thesis using Create schedule_POST [of e f s] by (simp add: wf_iff)
  next
    case (Edit e i f)
    have "distinct (map post_id (posts (snd (edit e i (POST f) s))))"
      using d edit_unchanged_or_POST [of e i "POST f" s]
      by (auto simp: map_post_id_update_post)
    moreover have "jobs_ok (jobs (snd (edit e i (POST f) s)))"
      using j edit_unchanged_or_POST [of e i "POST f" s]
      by (auto simp: jobs_ok_put_job)
    ultimately show ?thesis using Edit by (simp add: wf_iff)
  next
    case (Delete e i)
    then show ?thesis
      using d j by (simp add: wf_iff delete_posts delete_jobs distinct_map_filter jobs_ok_filter)
  next
    case (Startup e)
    then show ?thesis
      using d j foldl_startup_post_wf [of "s\<lparr>trace := trace s @ [Log INFO ''SchedulerSetup'']\<rparr>" e]
      by (simp add: wf_iff startup_def)
  next
    case (Fire k t)
    have "distinct (map post_id (posts (fire k t s)))"
      using d fire_cases [of k t s] by (auto split: if_splits)
    moreover have "jobs_ok (jobs (fire k t s))"
      using j fire_cases [of k t s] by (auto simp: jobs_ok_filter)
    ultimately show ?thesis using Fire by (simp add: wf_iff)
  qed
qed

lemma wf_run: "wf_state s \<Longrightarrow> wf_state (run ops s)"
  by (induction ops rule: rev_induct) (simp_all add: run_def wf_step)

lemma filter_distinct_le1:
  "distinct (map f xs) \<Longrightarrow> length (filter (\<lambda>x. f x = k) xs) \<le> Suc 0"
proof (induction xs)
  case Nil
  then show ?case by simp
next
  case (Cons a xs)
  show ?case
  proof (cases "f a = k")
    case True
    then have "\<forall>x \<in> set xs. f x \<noteq> k" using Cons.prems by (metis distinct.simps(2) imageI list.simps(9) list.set_map)
    then have "filter (\<lambda>x. f x = k) xs = []" by (simp add: filter_empty_conv)
    then show ?thesis using True by simp
  next
    case False
    then show ?thesis using Cons by simp
  qed
qed

lemma wf_at_most_one: "wf_state s \<Longrightarrow> at_most_one s"
  using filter_distinct_le1 [of jid "jobs s"]
  by (simp add: wf_state_def at_most_one_def jobs_of_def list_all_iff)

lemma jobs_of_empty_iff: "jobs_of i s = [] \<longleftrightarrow> job_id i \<notin> jid ` set (jobs s)"
proof -
  have "jobs_of i s = [] \<longleftrightarrow> (\<forall>j \<in> set (jobs s). jid j \<noteq> job_id i)"
    by (simp add: jobs_of_def filter_empty_conv)
  also have "\<dots> \<longleftrightarrow> job_id i \<notin> jid ` set (jobs s)"
    by (metis imageE imageI)
  finally show ?thesis .
qed

lemma posted_no_job_iff:
  "posted_no_job s \<longleftrightarrow>
     (\<forall>p \<in> set (posts s). status p = ''posted'' \<longrightarrow> job_id (post_id p) \<notin> jid ` set (jobs s))"
  by (auto simp: posted_no_job_def list_all_iff jobs_of_empty_iff)

lemma jid_set_put_job: "jid ` set (put_job j js) = insert (jid j) (jid ` set js)"
proof -
  have "set (map jid (put_job j js)) = insert (jid j) (set (map jid js))"
    by (auto simp: map_jid_put_job find_job_None_image)
  then show ?thesis by simp
qed

lemma jid_set_foldl_put:
  "jid ` set (foldl (\<lambda>js q. put_job (J q) js) js0 qs) = jid ` set js0 \<union> (\<lambda>q. jid (J q)) ` set qs"
  by (induction qs rule: rev_induct) (auto simp: jid_set_put_job)

lemma set_set_status:
  "p' \<in> set (set_status i v ps) \<Longrightarrow>
   (p' \<in> set ps \<and> post_id p' \<noteq> i) \<or> (\<exists>q \<in> set ps. post_id q = i \<and> p' = q\<lparr>status := v\<rparr>)"
  by (auto simp: set_status_def)

lemma posted_create:
  assumes P: "posted_no_job s"
  shows "posted_no_job (snd (schedule e (POST f) s))"
proof -
  let ?s' = "snd (schedule e (POST f) s)"
  note sp = schedule_POST [of e f s]
  have jj: "jid ` set (jobs ?s') \<subseteq> insert (job_id (fresh_id (posts s))) (jid ` set (jobs s))"
    using sp by (auto simp: jid_set_put_job)
  show ?thesis
    unfolding posted_no_job_iff
  proof (intro ballI impI)
    fix p assume p: "p \<in> set (posts ?s')" "status p = ''posted''"
    then have mem: "p \<in> set (posts s)" using sp by (auto simp: new_post_def)
    then have "post_id p \<noteq> fresh_id (posts s)" using fresh_id_greater [OF mem] by simp
    moreover have "job_id (post_id p) \<notin> jid ` set (jobs s)"
      using P mem p(2) by (simp add: posted_no_job_iff)
    ultimately show "job_id (post_id p) \<notin> jid ` set (jobs ?s')" using jj by auto
  qed
qed

lemma posted_edit:
  assumes P: "posted_no_job s" and safe: "status_of i s \<noteq> Some ''posted''"
  shows "posted_no_job (snd (edit e i (POST f) s))"
proof -
  let ?s' = "snd (edit e i (POST f) s)"
  from edit_unchanged_or_POST [of e i "POST f" s] show ?thesis
  proof (elim disjE exE conjE)
    assume "posts ?s' = posts s" "jobs ?s' = jobs s"
    then show ?thesis using P by (simp add: posted_no_job_iff)
  next
    fix q g
    assume q: "get_post i (posts s) = Some q"
      and ps: "posts ?s' = update_post (edited g q) (posts s)"
      and js: "jobs ?s' = (if add_job_fails e (job_id i) then jobs s
                else put_job \<lparr>jid = job_id i, run_date = form_time g, args = i\<rparr> (jobs s))"
    have idq: "post_id q = i" using q by (rule get_post_Some_id)
    have sq: "status q \<noteq> ''posted''" using safe q by (simp add: status_of_def)
    have jj: "jid ` set (jobs ?s') \<subseteq> insert (job_id i) (jid ` set (jobs s))"
      using js by (auto simp: jid_set_put_job)
    show ?thesis
      unfolding posted_no_job_iff
    proof (intro ballI impI)
      fix p assume p: "p \<in> set (posts ?s')" "status p = ''posted''"
      have "p \<noteq> edited g q" using sq p(2) by (auto simp: edited_def)
      then have mem: "p \<in> set (posts s)" and ne: "post_id p \<noteq> i"
        using p(1) ps idq by (auto simp: update_post_def edited_def split: if_splits)
      have "job_id (post_id p) \<notin> jid ` set (jobs s)"
        using P mem p(2) by (simp add: posted_no_job_iff)
      then show "job_id (post_id p) \<notin> jid ` set (jobs ?s')" using jj ne by auto
    qed
  qed
qed

lemma posted_delete:
  assumes P: "posted_no_job s"
  shows "posted_no_job (snd (delete e i s))"
  using P unfolding posted_no_job_iff by (auto simp: delete_posts delete_jobs)

lemma posted_fire:
  assumes w: "wf_state s" and P: "posted_no_job s"
  shows "posted_no_job (fire k t s)"
proof -
  from fire_cases [of k t s] show ?thesis
  proof (elim disjE exE conjE)
    assume "posts (fire k t s) = posts s" "jobs (fire k t s) = jobs s"
    then show ?thesis using P by (simp add: posted_no_job_iff)
  next
    fix j
    assume j: "find_job k (jobs s) = Some j"
      and js: "jobs (fire k t s) = filter (\<lambda>x. jid x \<noteq> k) (jobs s)"
      and ps: "posts (fire k t s) = (if status_of (args j) s = Some ''scheduled''
                 then set_status (args j) ''posted'' (posts s) else posts s)"
    have "j \<in> set (jobs s)" "jid j = k"
      using j by (auto simp: find_job_def find_Some_iff)
    then have k: "k = job_id (args j)" using w by (auto simp: wf_iff jobs_ok_def)
    show ?thesis
      unfolding posted_no_job_iff
    proof (intro ballI impI)
      fix p assume p: "p \<in> set (posts (fire k t s))" "status p = ''posted''"
      show "job_id (post_id p) \<notin> jid ` set (jobs (fire k t s))"
      proof (cases "post_id p = args j")
        case True
        then show ?thesis using js k by auto
      next
        case False
        then have "p \<in> set (posts s)"
          using p(1) ps set_set_status [of p "args j" "''posted''" "posts s"]
          by (auto split: if_splits)
        then have "job_id (post_id p) \<notin> jid ` set (jobs s)"
          using P p(2) by (simp add: posted_no_job_iff)
        then show ?thesis using js by auto
      qed
    qed
  qed
qed

lemma posted_startup:
  assumes w: "wf_state s" and P: "posted_no_job s" and safe: "safe s (Startup e)"
  shows "posted_no_job (startup e s)"
proof -
  have d: "distinct (map post_id (posts s))" using w by (simp add: wf_iff)
  have inj: "inj_on post_id (set (posts s))" using d by (simp add: distinct_map)
  note cf = startup_closed_form [OF d, of e]
  have ps: "posts (startup e s) =
      map (\<lambda>p. if status p = ''scheduled'' \<and> due e p then p\<lparr>status := ''posted''\<rparr> else p) (posts s)"
    using cf by blast
  have js: "jid ` set (jobs (startup e s)) =
      jid ` set (jobs s) \<union> (\<lambda>q. jid (post_job q)) ` set (filter (registered e) (posts s))"
    using cf by (simp add: jid_set_foldl_put)
  have sf: "job_id (post_id p) \<notin> jid ` set (jobs s)"
    if "p \<in> set (posts s)" "status p = ''scheduled''" "due e p" for p
    using safe that by (auto simp: list_all_iff jobs_of_empty_iff)
  show ?thesis
    unfolding posted_no_job_iff
  proof (intro ballI impI)
    fix p' assume p': "p' \<in> set (posts (startup e s))" "status p' = ''posted''"
    then obtain p where p: "p \<in> set (posts s)"
      and pp: "p' = (if status p = ''scheduled'' \<and> due e p then p\<lparr>status := ''posted''\<rparr> else p)"
      using ps by auto
    have id: "post_id p' = post_id p" using pp by simp
    have old: "job_id (post_id p) \<notin> jid ` set (jobs s)"
    proof (cases "status p = ''scheduled'' \<and> due e p")
      case True
      then show ?thesis using sf p by simp
    next
      case False
      then have "status p = ''posted''" using pp p'(2) by (auto split: if_splits)
      then show ?thesis using P p by (simp add: posted_no_job_iff)
    qed
    have notreg: "\<not> registered e p"
    proof (cases "status p = ''scheduled'' \<and> due e p")
      case True
      then show ?thesis by (simp add: registered_def)
    next
      case False
      then have "status p = ''posted''" using pp p'(2) by (auto split: if_splits)
      then show ?thesis by (simp add: registered_def)
    qed
    have new: "job_id (post_id p) \<noteq> jid (post_job q)"
      if q: "q \<in> set (filter (registered e) (posts s))" for q
    proof
      assume "job_id (post_id p) = jid (post_job q)"
      then have "post_id p = post_id q" by (simp add: post_job_def)
      then have "p = q" using inj p q by (simp add: inj_on_def)
      then show False using q notreg by simp
    qed
    show "job_id (post_id p') \<notin> jid ` set (jobs (startup e s))"
      using old new by (auto simp: js id)
  qed
qed

lemma posted_step:
  assumes "wf_state s" and "posted_no_job s" and "safe s x"
  shows "posted_no_job (step s x)"
proof (cases x)
  case (Create e f)
  then show ?thesis using posted_create [OF assms(2)] by simp
next
  case (Edit e i f)
  then show ?thesis using posted_edit [OF assms(2)] assms(3) by simp
next
  case (Delete e i)
  then show ?thesis using posted_delete [OF assms(2)] by simp
next
  case (Startup e)
  then show ?thesis using posted_startup [OF assms(1,2)] assms(3) by simp
next
  case (Fire k t)
  then show ?thesis using posted_fire [OF assms(1,2)] by simp
qed

lemma posted_run:
  "wf_state s \<Longrightarrow> posted_no_job s \<Longrightarrow> all_safe s ops \<Longrightarrow> posted_no_job (run ops s)"
proof (induction ops arbitrary: s)
  case Nil
  then show ?case by (simp add: run_def)
next
  case (Cons x ops)
  have "posted_no_job (run ops (step s x))"
    using Cons.IH [of "step s x"] Cons.prems by (simp add: wf_step posted_step)
  then show ?case by (simp add: run_def)
qed

text \<open>
  C3, amended. Starting from stores whose post ids are unique and whose job entries have
  unique ids derived from their post ids, this stays so after every sequence of operations,
  and every post has at most one entry under its task id. That no posted post has an entry
  is kept by create, delete and the publish callback, by an edit of a post that is not
  posted, and by a startup in which no overdue scheduled post has an entry.
\<close>

theorem scheduler_entries:
  assumes "wf_state s"
  shows "wf_state (run ops s) \<and> at_most_one (run ops s) \<and>
         (posted_no_job s \<and> all_safe s ops \<longrightarrow> posted_no_job (run ops s))"
  using assms wf_run [OF assms, of ops] wf_at_most_one [of "run ops s"] posted_run [of s ops]
  by blast

text \<open>
  C3, as stated, fails: an edit registers a task whatever the post's status, and the
  startup reconciliation publishes an overdue post without cancelling its task. From the
  empty stores, create, publish callback, edit leaves a posted post with a live entry;
  so does create followed by a startup with the post overdue.
\<close>

theorem scheduler_entries_counterexample:
  "\<not> spec_invariant (run [Create ok_env form_past, Fire ''post_1'' 1000000,
                            Edit ok_env 1 form_D] init_state) \<and>
   \<not> spec_invariant (run [Create ok_env form_past, Startup ok_env] init_state)"
  by code_simp

theorem scheduler_entries_witness:
  "wf_state init_state \<and> posted_no_job init_state \<and>
   all_safe init_state [Create ok_env form_past, Fire ''post_1'' 1000000, Create ok_env form_D,
                        Edit ok_env 2 form_C, Startup ok_env] \<and>
   wf_state (run [Create ok_env form_past, Fire ''post_1'' 1000000, Create ok_env form_D,
            Edit ok_env 2 form_C, Startup ok_env] init_state) \<and>
   at_most_one (run [Create ok_env form_past, Fire ''post_1'' 1000000, Create ok_env form_D,
            Edit ok_env 2 form_C, Startup ok_env] init_state) \<and>
   posted_no_job (run [Create ok_env form_past, Fire ''post_1'' 1000000, Create ok_env form_D,
            Edit ok_env 2 form_C, Startup ok_env] init_state)"
proof -
  have a: "wf_state init_state" by (simp add: wf_state_def init_state_def)
  have b: "posted_no_job init_state" by (simp add: posted_no_job_def init_state_def)
  have c: "all_safe init_state [Create ok_env form_past, Fire ''post_1'' 1000000,
             Create ok_env form_D, Edit ok_env 2 form_C, Startup ok_env]"
    by code_simp
  show ?thesis
    using a b c scheduler_entries [OF a] by blast
qed

end
